theory Spec2Isabelle
  imports Complex_Main
begin

section \<open>The navigable-area script \<open>examples/compute_nav_area.py\<close>\<close>

text \<open>
  The script drives a robot of the Habitat simulator: \<open>play_env\<close> explores the base poses
  that two fixed base actions reach, keeps a list of the poses it has seen, and counts the
  poses that pass the simulator's navigability and contact checks; the main block loads a
  configuration, runs the exploration and stores the result.

  Python floats are modelled as \<open>real\<close> (no rounding, no NaN), Python integers as \<open>int\<close>.
  The simulator, the robot class and the configuration system are not part of the script:
  what the script calls of them is a field of the records \<open>sim\<close> and \<open>world\<close> below, and
  every theorem holds for all values of these fields. Such calls are taken to return;
  the exceptions modelled are the ones the script raises itself, the \<open>TypeError\<close> of adding
  \<open>None\<close> to a number, the \<open>ZeroDivisionError\<close> of \<open>1 / ctrl_freq\<close> and a failing \<open>open\<close> of
  the actions file or of an output file. The \<open>print\<close> calls are left out.
\<close>

subsection \<open>Vectors, poses and angles\<close>

type_synonym vec3 = "real \<times> real \<times> real"

definition c0 :: "vec3 \<Rightarrow> real" where "c0 v = fst v"
definition c1 :: "vec3 \<Rightarrow> real" where "c1 v = fst (snd v)"
definition c2 :: "vec3 \<Rightarrow> real" where "c2 v = snd (snd v)"

text \<open>\<open>vec2list(v)\<close> is \<open>[v[0], v[1], v[2]]\<close>.\<close>

definition vec2list :: "vec3 \<Rightarrow> vec3" where
  "vec2list v = (c0 v, c1 v, c2 v)"

text \<open>\<open>v[1] = y\<close> on a vector.\<close>

definition set_c1 :: "vec3 \<Rightarrow> real \<Rightarrow> vec3" where
  "set_c1 v y = (c0 v, y, c2 v)"

text \<open>
  Python's \<open>a % b\<close> on floats, for a divisor \<open>b > 0\<close> (the script's divisor is \<open>2 * np.pi\<close>):
  the result is \<open>a - b * floor(a / b)\<close>.
\<close>

definition float_mod :: "real \<Rightarrow> real \<Rightarrow> real" where
  "float_mod a b = a - b * of_int \<lfloor>a / b\<rfloor>"

definition distance_angle :: "real \<Rightarrow> real \<Rightarrow> real" where
  "distance_angle alpha beta =
     (let phi = float_mod \<bar>beta - alpha\<bar> (2 * pi)
      in if phi > pi then 2 * pi - phi else phi)"

subsection \<open>Python values and exceptions\<close>

text \<open>
  The exceptions of a run. \<open>LoadError\<close> stands for whatever \<open>open\<close> or \<open>np.load\<close> raises on a
  file that is there and cannot be read.
\<close>

datatype py_error =
  ImportError | ValueError | TypeError | ZeroDivisionError | FileNotFoundError | LoadError

text \<open>What \<open>play_env\<close> returns: \<open>None\<close> (a bare \<open>return\<close>) or an integer.\<close>

datatype pyval = PyNone | PyInt int

subsection \<open>The command line\<close>

text \<open>The namespace \<open>parser.parse_args()\<close> returns, one field per option of the script.\<close>

record args =
  no_render :: bool
  save_obs :: bool
  save_obs_fname :: string
  save_actions :: bool
  save_actions_fname :: string
  save_actions_count :: int
  play_cam_res :: int
  skip_render_text :: bool
  same_task :: bool
  skip_task :: bool
  never_end :: bool
  add_ik :: bool
  gfx :: bool
  load_actions :: "string option"
  cfg :: string
  opts :: "string list"

definition DEFAULT_RENDER_STEPS_LIMIT :: int where
  "DEFAULT_RENDER_STEPS_LIMIT = 60"

subsection \<open>The simulator\<close>

text \<open>
  The robot's base: \<open>env.sim.robot.base_pos\<close> and \<open>env.sim.robot.base_rot\<close>. The two properties
  are taken to store and return what the script assigns to them.
\<close>

record robot =
  base_pos :: vec3
  base_rot :: real

text \<open>
  What \<open>play_env\<close> asks of the simulator: \<open>env.sim.pathfinder.is_navigable(pos)\<close>;
  \<open>env.sim.contact_test(...)\<close>, whose answer depends on where the robot stands;
  \<open>env.sim.ctrl_freq\<close>; and \<open>base_vel_ctrl.integrate_transform(dt, rigid_state)\<close> for a
  velocity control with linear velocity \<open>(lin_vel, 0, 0)\<close> and angular velocity
  \<open>(0, ang_vel, 0)\<close>, which returns the translation and the rotation angle of the target
  rigid state. The rigid state the script builds from \<open>sim_obj.transformation\<close> is the
  robot's base pose. The last field is not the simulator's but the file system's: what
  \<open>open(path, "rb")\<close> and \<open>np.load\<close> find of the file that \<open>play_env\<close> loads.
\<close>

datatype file_status = Readable | Missing | Unreadable

record sim =
  is_navigable :: "vec3 \<Rightarrow> bool"
  contact_test :: "robot \<Rightarrow> bool"
  ctrl_freq :: real
  integrate_transform :: "real \<Rightarrow> real \<Rightarrow> real \<Rightarrow> robot \<Rightarrow> robot"
  actions_file :: "string \<Rightarrow> file_status"

text \<open>
  The state \<open>play_env\<close> changes: the robot's base, the list \<open>visit_pos_rot\<close> (one Python list,
  shared by all the recursive calls), and the calls made to \<open>integrate_transform\<close> so far,
  each with its linear velocity, its angular velocity and the rigid state it started from.
  The script keeps no such list of calls; it is the model's record of this effect.
\<close>

type_synonym pose = "vec3 \<times> real"

record state =
  robot :: robot
  visit_pos_rot :: "pose list"
  integrate_calls :: "(int \<times> int \<times> robot) list"

subsection \<open>The visited-pose check\<close>

definition has_visited_threshold_pos :: real where
  "has_visited_threshold_pos = 0.01"

definition has_visited_threshold_rot :: real where
  "has_visited_threshold_rot = 0.01"

text \<open>
  \<open>diff_vec = np.array(pos) - np.array(vec2list(after_base_pos))\<close>, then the sum of the
  three squares, accumulated from 0, to the power 0.5.
\<close>

definition diff_pos :: "vec3 \<Rightarrow> vec3 \<Rightarrow> real" where
  "diff_pos pos after_base_pos =
     (let after = vec2list after_base_pos;
          d0 = c0 pos - c0 after;
          d1 = c1 pos - c1 after;
          d2 = c2 pos - c2 after
      in sqrt (0 + d0\<^sup>2 + d1\<^sup>2 + d2\<^sup>2))"

text \<open>
  The loop over \<open>visit_pos_rot\<close> that computes \<open>flag_distinct\<close>: it starts from \<open>True\<close> and
  stops with \<open>False\<close> at the first recorded point within both thresholds.
\<close>

fun flag_distinct_of :: "pose list \<Rightarrow> vec3 \<Rightarrow> real \<Rightarrow> bool" where
  "flag_distinct_of [] after_base_pos after_base_rot = True"
| "flag_distinct_of ((pos, rot) # points) after_base_pos after_base_rot =
     (if diff_pos pos after_base_pos \<le> has_visited_threshold_pos
         \<and> distance_angle rot after_base_rot \<le> has_visited_threshold_rot
      then False
      else flag_distinct_of points after_base_pos after_base_rot)"

subsection \<open>\<open>play_env\<close>\<close>

text \<open>
  One pass of the body of \<open>for base_action in [[0, 1], [1, 0]]\<close> up to the new base pose:
  the base is put back to the pose at function entry, the velocities are scaled, the
  rigid state is integrated over \<open>1 / ctrl_freq\<close>, index 1 of the new position is overwritten
  with index 1 of the current base position, and the base is moved there.
\<close>

definition move_base :: "sim \<Rightarrow> vec3 \<Rightarrow> real \<Rightarrow> int \<times> int \<Rightarrow> state \<Rightarrow> py_error + state" where
  "move_base s before_base_pos before_base_rot base_action st =
     (let st1 = st\<lparr>robot := \<lparr>base_pos = before_base_pos, base_rot = before_base_rot\<rparr>\<rparr>;
          lin_vel = fst base_action * 10;
          ang_vel = snd base_action * 50;
          rigid_state = robot st1
      in if ctrl_freq s = 0 then Inl ZeroDivisionError
         else
           let target_rigid_state =
                 integrate_transform s (1 / ctrl_freq s) (of_int lin_vel) (of_int ang_vel) rigid_state;
               st2 = st1\<lparr>integrate_calls := integrate_calls st1 @ [(lin_vel, ang_vel, rigid_state)]\<rparr>;
               new_pos = set_c1 (base_pos target_rigid_state) (c1 (base_pos (robot st2)))
           in Inr (st2\<lparr>robot := \<lparr>base_pos = new_pos, base_rot = base_rot target_rigid_state\<rparr>\<rparr>))"

text \<open>
  The middle of the loop body: the new pose is compared with the recorded ones and appended
  to \<open>visit_pos_rot\<close> when it is distinct. The result is \<open>flag_distinct\<close> and the state.
\<close>

definition mark_visited :: "state \<Rightarrow> bool \<times> state" where
  "mark_visited st =
     (let after_base_pos = base_pos (robot st);
          after_base_rot = base_rot (robot st);
          flag_distinct = flag_distinct_of (visit_pos_rot st) after_base_pos after_base_rot
      in if flag_distinct
         then (flag_distinct,
               st\<lparr>visit_pos_rot := visit_pos_rot st @ [(vec2list after_base_pos, after_base_rot)]\<rparr>)
         else (flag_distinct, st))"

text \<open>
  The loop \<open>for base_action in [[0, 1], [1, 0]]\<close>: each pass moves the base, marks the new
  pose and explores it by the recursive call \<open>recurse\<close>, whose result is added to \<open>ans\<close>.
  Adding \<open>None\<close> to \<open>ans\<close> raises \<open>TypeError\<close>.
\<close>

fun for_base_action ::
  "(bool \<Rightarrow> state \<Rightarrow> (py_error + pyval \<times> state) option) \<Rightarrow> sim \<Rightarrow> vec3 \<Rightarrow> real \<Rightarrow>
   (int \<times> int) list \<Rightarrow> int \<Rightarrow> state \<Rightarrow> (py_error + pyval \<times> state) option" where
  "for_base_action recurse s before_base_pos before_base_rot [] ans st = Some (Inr (PyInt ans, st))"
| "for_base_action recurse s before_base_pos before_base_rot (base_action # actions) ans st =
     (case move_base s before_base_pos before_base_rot base_action st of
        Inl e \<Rightarrow> Some (Inl e)
      | Inr st1 \<Rightarrow>
          (case mark_visited st1 of
             (flag_distinct, st2) \<Rightarrow>
               (case recurse flag_distinct st2 of
                  None \<Rightarrow> None
                | Some (Inl e) \<Rightarrow> Some (Inl e)
                | Some (Inr (PyNone, st3)) \<Rightarrow> Some (Inl TypeError)
                | Some (Inr (PyInt k, st3)) \<Rightarrow>
                    for_base_action recurse s before_base_pos before_base_rot actions (ans + k) st3)))"

text \<open>
  The top of \<open>play_env\<close>: \<open>use_arm_actions\<close> is \<open>None\<close>, or what \<open>np.load\<close> reads from the file
  \<open>args.load_actions\<close> (the loaded array is never used; the path stands for it). Opening a
  file that does not exist raises \<open>FileNotFoundError\<close>; a file that cannot be read raises too.
\<close>

definition use_arm_actions :: "sim \<Rightarrow> args \<Rightarrow> py_error + string option" where
  "use_arm_actions s a =
     (case load_actions a of
        None \<Rightarrow> Inr None
      | Some path \<Rightarrow>
          (case actions_file s path of
             Readable \<Rightarrow> Inr (Some path)
           | Missing \<Rightarrow> Inl FileNotFoundError
           | Unreadable \<Rightarrow> Inl LoadError))"

text \<open>
  The first of the two early \<open>return\<close>s of \<open>play_env\<close>: \<open>all_arm_actions\<close> is the empty list
  the function has just made.
\<close>

definition recording_full :: "args \<Rightarrow> bool" where
  "recording_full a =
     (let all_arm_actions = ([] :: real list list)
      in save_actions a \<and> int (length all_arm_actions) > save_actions_count a)"

text \<open>The second: \<open>update_idx\<close> is 0, and the limit is set only under \<open>--no-render\<close>.\<close>

definition render_limit_reached :: "args \<Rightarrow> bool" where
  "render_limit_reached a =
     (let render_steps_limit = (if no_render a then Some DEFAULT_RENDER_STEPS_LIMIT else None);
          update_idx = (0 :: int)
      in case render_steps_limit of None \<Rightarrow> False | Some limit \<Rightarrow> update_idx > limit)"

text \<open>
  \<open>play_env(env, args, config, level, visit_pos_rot, flag_distinct)\<close>. The first argument
  bounds the depth of the recursion: the result \<open>None\<close> says that the call did not return
  within that depth. A result \<open>Some (Inl e)\<close> is the exception \<open>e\<close>, a result
  \<open>Some (Inr (v, st))\<close> the returned value and the state left behind. The script sets the
  interpreter's recursion limit to 10000000; a call that needs more depth than the
  interpreter has does not return, and the model says no more about it.
\<close>

fun play_env ::
  "nat \<Rightarrow> sim \<Rightarrow> args \<Rightarrow> int \<Rightarrow> bool \<Rightarrow> state \<Rightarrow> (py_error + pyval \<times> state) option" where
  "play_env 0 s a level flag_distinct st = None"
| "play_env (Suc n) s a level flag_distinct st =
     (case use_arm_actions s a of
        Inl e \<Rightarrow> Some (Inl e)
      | Inr loaded \<Rightarrow>
          if recording_full a then Some (Inr (PyNone, st))
          else if render_limit_reached a then Some (Inr (PyNone, st))
          else
            let before_base_pos = base_pos (robot st);
                before_base_rot = base_rot (robot st);
                navigable = is_navigable s before_base_pos;
                is_contact = contact_test s (robot st)
            in if \<not> navigable \<or> is_contact then Some (Inr (PyInt 0, st))
               else if \<not> flag_distinct then Some (Inr (PyInt 0, st))
               else for_base_action (play_env n s a (level + 1)) s before_base_pos
                      before_base_rot [(0, 1), (1, 0)] 1 st)"

subsection \<open>The main block\<close>

definition SAVE_NAME :: string where
  "SAVE_NAME = ''spot_final''"

text \<open>
  The fields of the Habitat configuration that the script writes or tests. \<open>task_actions\<close> is
  \<open>config.TASK.ACTIONS\<close>: it maps the name of an action to the \<open>ARM_CONTROLLER\<close> of its entry.
\<close>

record config =
  third_rgb_sensor_width :: int
  third_rgb_sensor_height :: int
  agent_0_sensors :: "string list"
  debug_render :: bool
  composite_success_must_call_stop :: bool
  rearrange_nav_to_obj_success_must_call_stop :: bool
  max_accum_force :: real
  max_instant_force :: real
  enable_gfx_replay_save :: bool
  measurements :: "string list"
  max_episode_steps :: int
  task_actions :: "string \<rightharpoonup> string"
  ik_arm_urdf :: string

text \<open>
  What the main block takes from outside the script: whether \<open>import pygame\<close> succeeded,
  \<open>habitat.get_config\<close>, the simulator of \<open>habitat.Env(config)\<close> and the robot's base after
  \<open>env.reset()\<close>, the whole seconds the exploration took, and whether a file can be opened
  for writing.
\<close>

record world =
  pygame_imported :: bool
  get_config :: "string \<Rightarrow> string list \<Rightarrow> config"
  make_env :: "config \<Rightarrow> sim"
  reset_robot :: "config \<Rightarrow> robot"
  elapsed :: int
  can_open :: "string \<Rightarrow> bool"

definition has_pygame :: "world \<Rightarrow> bool" where
  "has_pygame w = pygame_imported w"

text \<open>
  The files a run can leave behind, and the steps of the main block that reach outside the
  process. A pickle holds \<open>[difference, total_point, visited_list]\<close>, a plot the scattered
  points.
\<close>

datatype artifact =
    PickleFile string int pyval "pose list"
  | PngFile string "(real \<times> real) list"
  | Mp4File string
  | ActionsFile string

datatype event = ConfigLoaded | EnvCreated | Written artifact | SetTrace

datatype outcome = Raised py_error | Finished

text \<open>The check after \<open>parse_args\<close>, then \<open>habitat.get_config(args.cfg, args.opts)\<close>.\<close>

definition load_config :: "world \<Rightarrow> args \<Rightarrow> py_error + config" where
  "load_config w a =
     (if \<not> has_pygame w \<and> \<not> no_render a then Inl ImportError
      else Inr (get_config w (cfg a) (opts a)))"

text \<open>From \<open>config.defrost()\<close> to \<open>config.freeze()\<close>.\<close>

definition edit_config :: "args \<Rightarrow> config \<Rightarrow> py_error + config" where
  "edit_config a config0 =
     (let config1 =
            (if \<not> same_task a
             then config0\<lparr>third_rgb_sensor_width := play_cam_res a,
                    third_rgb_sensor_height := play_cam_res a,
                    agent_0_sensors := agent_0_sensors config0 @ [''THIRD_RGB_SENSOR''],
                    debug_render := True,
                    composite_success_must_call_stop := False,
                    rearrange_nav_to_obj_success_must_call_stop := False,
                    max_accum_force := - 1,
                    max_instant_force := - 1\<rparr>
             else config0);
          config2 =
            (if gfx a
             then config1\<lparr>enable_gfx_replay_save := True,
                    measurements := measurements config1 @ [''GFX_REPLAY_MEASURE'']\<rparr>
             else config1);
          config3 = (if never_end a then config2\<lparr>max_episode_steps := 0\<rparr> else config2)
      in if add_ik a
         then (case task_actions config3 ''ARM_ACTION'' of
                 None \<Rightarrow> Inl ValueError
               | Some arm_action \<Rightarrow>
                   Inr (config3\<lparr>task_actions := (task_actions config3)(''ARM_ACTION'' \<mapsto> ''ArmEEAction''),
                          ik_arm_urdf := ''data/robots/hab_spot_arm/urdf/hab_spot_onlyarm.urdf''\<rparr>))
         else Inr config3)"

text \<open>
  The main block. It returns the steps it took and how it ended; \<open>None\<close> when the exploration
  did not return within depth \<open>n\<close>. The run ends in the debugger (\<open>pdb.set_trace()\<close>).
\<close>

definition main :: "nat \<Rightarrow> world \<Rightarrow> args \<Rightarrow> (event list \<times> outcome) option" where
  "main n w a =
     (case load_config w a of
        Inl e \<Rightarrow> Some ([], Raised e)
      | Inr config0 \<Rightarrow>
          (case edit_config a config0 of
             Inl e \<Rightarrow> Some ([ConfigLoaded], Raised e)
           | Inr config \<Rightarrow>
               let env = make_env w config;
                   before_base_pos = base_pos (reset_robot w config);
                   before_base_rot = base_rot (reset_robot w config);
                   visited_list = [(vec2list before_base_pos, before_base_rot)];
                   st0 = \<lparr>robot = reset_robot w config, visit_pos_rot = visited_list,
                          integrate_calls = []\<rparr>
               in case play_env n env a 0 True st0 of
                    None \<Rightarrow> None
                  | Some (Inl e) \<Rightarrow> Some ([ConfigLoaded, EnvCreated], Raised e)
                  | Some (Inr (total_point, st)) \<Rightarrow>
                      let difference = elapsed w;
                          visited_list = visit_pos_rot st;
                          pkl = ''/Users/jimmytyyang/Documents/'' @ SAVE_NAME @ ''_visit_points.pkl'';
                          png = ''/Users/jimmytyyang/Documents/'' @ SAVE_NAME @ ''_area.png'';
                          pickled = Written (PickleFile pkl difference total_point visited_list);
                          x = map (\<lambda>point. c0 (fst point)) visited_list;
                          y = map (\<lambda>point. c2 (fst point)) visited_list;
                          plotted = Written (PngFile png (zip x y))
                      in if \<not> can_open w pkl
                         then Some ([ConfigLoaded, EnvCreated], Raised FileNotFoundError)
                         else if \<not> can_open w png
                         then Some ([ConfigLoaded, EnvCreated, pickled], Raised FileNotFoundError)
                         else Some ([ConfigLoaded, EnvCreated, pickled, plotted, SetTrace],
                                    Finished)))"

subsection \<open>Notions used to state the properties\<close>

text \<open>The pose of a robot base as \<open>visit_pos_rot\<close> records it.\<close>

definition pose_of :: "robot \<Rightarrow> pose" where
  "pose_of r = (vec2list (base_pos r), base_rot r)"

text \<open>A pose passes the two checks of \<open>play_env\<close>: it is navigable and free of contact.\<close>

definition passable :: "sim \<Rightarrow> pose \<Rightarrow> bool" where
  "passable s p =
     (is_navigable s (fst p) \<and> \<not> contact_test s \<lparr>base_pos = fst p, base_rot = snd p\<rparr>)"

text \<open>Two poses are within both thresholds of each other.\<close>

definition within_thresholds :: "pose \<Rightarrow> pose \<Rightarrow> bool" where
  "within_thresholds p q =
     (diff_pos (fst p) (fst q) \<le> has_visited_threshold_pos
      \<and> distance_angle (snd p) (snd q) \<le> has_visited_threshold_rot)"

text \<open>Every entry of a list is beyond a threshold from every earlier entry.\<close>

fun deduplicated :: "pose list \<Rightarrow> bool" where
  "deduplicated [] = True"
| "deduplicated (p # ps) = (list_all (\<lambda>q. \<not> within_thresholds p q) ps \<and> deduplicated ps)"

text \<open>The pose a base action leads to from a pose, when \<open>ctrl_freq\<close> is not 0.\<close>

definition next_pose :: "sim \<Rightarrow> pose \<Rightarrow> int \<times> int \<Rightarrow> pose" where
  "next_pose s p base_action =
     (let target = integrate_transform s (1 / ctrl_freq s)
                     (of_int (fst base_action * 10)) (of_int (snd base_action * 50))
                     \<lparr>base_pos = fst p, base_rot = snd p\<rparr>
      in (set_c1 (base_pos target) (c1 (fst p)), base_rot target))"

text \<open>
  Each pose of \<open>new\<close> passed the visited-pose check against the list it was appended to:
  \<open>V\<close> followed by the poses of \<open>new\<close> before it.
\<close>

fun added_distinct :: "pose list \<Rightarrow> pose list \<Rightarrow> bool" where
  "added_distinct V [] = True"
| "added_distinct V (p # ps) = (flag_distinct_of V (fst p) (snd p) \<and> added_distinct (V @ [p]) ps)"

subsection \<open>Concrete simulators, states and command lines\<close>

text \<open>
  A corridor along the first axis. The robot cannot turn; a forward action of velocity 10
  over one control step of 1/10 moves it by 1; the integration also lifts the robot by 1,
  which \<open>play_env\<close> undoes. Every position from 0 on is navigable, and the robot is in contact
  beyond 2. No actions file exists.
\<close>

definition corridor_sim :: sim where
  "corridor_sim =
     \<lparr>is_navigable = (\<lambda>p. 0 \<le> c0 p),
      contact_test = (\<lambda>r. 2 < c0 (base_pos r)),
      ctrl_freq = 10,
      integrate_transform =
        (\<lambda>dt lin_vel ang_vel r.
           \<lparr>base_pos = (c0 (base_pos r) + lin_vel * dt, c1 (base_pos r) + 1, c2 (base_pos r)),
            base_rot = base_rot r\<rparr>),
      actions_file = (\<lambda>path. Missing)\<rparr>"

text \<open>The same corridor without any contact: it never ends.\<close>

definition endless_sim :: sim where
  "endless_sim = corridor_sim\<lparr>contact_test := (\<lambda>r. False)\<rparr>"

text \<open>
  The endless corridor for a robot that moves forward when it is told to turn: an angular
  velocity of 50 moves it by 1, as a linear velocity of 10 does.
\<close>

definition drifting_sim :: sim where
  "drifting_sim =
     endless_sim\<lparr>integrate_transform :=
        (\<lambda>dt lin_vel ang_vel r.
           \<lparr>base_pos = (c0 (base_pos r) + (lin_vel + ang_vel / 5) * dt, c1 (base_pos r),
                        c2 (base_pos r)),
            base_rot = base_rot r\<rparr>)\<rparr>"

text \<open>The corridor with a control frequency of 0.\<close>

definition stalled_sim :: sim where
  "stalled_sim = corridor_sim\<lparr>ctrl_freq := 0\<rparr>"

text \<open>A simulator in which no position is navigable.\<close>

definition walled_sim :: sim where
  "walled_sim = corridor_sim\<lparr>is_navigable := (\<lambda>p. False)\<rparr>"

definition origin :: robot where
  "origin = \<lparr>base_pos = (0, 0, 0), base_rot = 0\<rparr>"

text \<open>The state in which the main block calls \<open>play_env\<close> when the robot starts at the origin.\<close>

definition start_state :: state where
  "start_state = \<lparr>robot = origin, visit_pos_rot = [((0, 0, 0), 0)], integrate_calls = []\<rparr>"

text \<open>
  The state in which the drifting robot makes its first recursive call from \<open>start_state\<close>:
  the base action \<open>[0, 1]\<close> has moved it to a new pose.
\<close>

definition drifted_state :: state where
  "drifted_state =
     \<lparr>robot = \<lparr>base_pos = (1, 0, 0), base_rot = 0\<rparr>,
      visit_pos_rot = [((0, 0, 0), 0), ((1, 0, 0), 0)],
      integrate_calls = [(0, 50, \<lparr>base_pos = (0, 0, 0), base_rot = 0\<rparr>)]\<rparr>"

text \<open>The state in which the exploration of the corridor from \<open>start_state\<close> ends.\<close>

definition corridor_end :: state where
  "corridor_end =
     \<lparr>robot = \<lparr>base_pos = (3, 0, 0), base_rot = 0\<rparr>,
      visit_pos_rot = [((0, 0, 0), 0), ((1, 0, 0), 0), ((2, 0, 0), 0), ((3, 0, 0), 0)],
      integrate_calls =
        [(0, 50, \<lparr>base_pos = (0, 0, 0), base_rot = 0\<rparr>), (10, 0, \<lparr>base_pos = (0, 0, 0), base_rot = 0\<rparr>),
         (0, 50, \<lparr>base_pos = (1, 0, 0), base_rot = 0\<rparr>), (10, 0, \<lparr>base_pos = (1, 0, 0), base_rot = 0\<rparr>),
         (0, 50, \<lparr>base_pos = (2, 0, 0), base_rot = 0\<rparr>), (10, 0, \<lparr>base_pos = (2, 0, 0), base_rot = 0\<rparr>)]\<rparr>"

text \<open>The command line \<open>--no-render\<close>, every other option at its default.\<close>

definition no_render_args :: args where
  "no_render_args =
     \<lparr>no_render = True, save_obs = False, save_obs_fname = ''play.mp4'',
      save_actions = False, save_actions_fname = ''play_actions.txt'',
      save_actions_count = 200, play_cam_res = 512, skip_render_text = False,
      same_task = False, skip_task = False, never_end = False, add_ik = False, gfx = False,
      load_actions = None, cfg = ''configs/tasks/rearrange/check_nav_spot.yaml'', opts = []\<rparr>"

text \<open>\<open>--no-render --save-actions --save-actions-count -1\<close>.\<close>

definition negative_count_args :: args where
  "negative_count_args = no_render_args\<lparr>save_actions := True, save_actions_count := - 1\<rparr>"

text \<open>\<open>--no-render --load-actions missing.npy\<close>.\<close>

definition missing_file_args :: args where
  "missing_file_args = no_render_args\<lparr>load_actions := Some ''missing.npy''\<rparr>"

text \<open>\<open>--no-render --save-obs --save-actions\<close>.\<close>

definition recording_args :: args where
  "recording_args = no_render_args\<lparr>save_obs := True, save_actions := True\<rparr>"

text \<open>\<open>--no-render --add-ik\<close>, and \<open>--add-ik\<close> alone.\<close>

definition add_ik_args :: args where
  "add_ik_args = no_render_args\<lparr>add_ik := True\<rparr>"

definition rendering_args :: args where
  "rendering_args = no_render_args\<lparr>no_render := False\<rparr>"

text \<open>A configuration whose task has a base velocity action only.\<close>

definition base_only_config :: config where
  "base_only_config =
     \<lparr>third_rgb_sensor_width = 256, third_rgb_sensor_height = 256, agent_0_sensors = [],
      debug_render = False, composite_success_must_call_stop = True,
      rearrange_nav_to_obj_success_must_call_stop = True, max_accum_force = 0,
      max_instant_force = 0, enable_gfx_replay_save = False, measurements = [],
      max_episode_steps = 200, task_actions = [''BASE_VELOCITY'' \<mapsto> ''''],
      ik_arm_urdf = ''''\<rparr>"

text \<open>
  A machine without PyGame on which both output files can be written, with the corridor as
  its simulator; and the same machine without the output directory.
\<close>

definition corridor_world :: world where
  "corridor_world =
     \<lparr>pygame_imported = False, get_config = (\<lambda>path overrides. base_only_config),
      make_env = (\<lambda>c. corridor_sim), reset_robot = (\<lambda>c. origin), elapsed = 7,
      can_open = (\<lambda>path. True)\<rparr>"

definition no_directory_world :: world where
  "no_directory_world = corridor_world\<lparr>can_open := (\<lambda>path. False)\<rparr>"

text \<open>The poses of the corridor that the robot can reach from the origin.\<close>

definition corridor_poses :: "pose set" where
  "corridor_poses = {((0, 0, 0), 0), ((1, 0, 0), 0), ((2, 0, 0), 0), ((3, 0, 0), 0)}"

section \<open>Properties\<close>

subsection \<open>Properties of \<open>distance_angle\<close>\<close>

lemma float_mod_range:
  assumes "0 < b"
  shows "0 \<le> float_mod a b" and "float_mod a b < b"
proof -
  have "of_int \<lfloor>a / b\<rfloor> \<le> a / b" by (rule of_int_floor_le)
  then have "of_int \<lfloor>a / b\<rfloor> * b \<le> a"
    using assms by (simp only: pos_le_divide_eq)
  then have "b * of_int \<lfloor>a / b\<rfloor> \<le> a" by (simp only: mult.commute)
  then show "0 \<le> float_mod a b" by (simp add: float_mod_def)
  have "a / b < of_int \<lfloor>a / b\<rfloor> + 1" by linarith
  then have "a < (of_int \<lfloor>a / b\<rfloor> + 1) * b"
    using assms by (simp only: pos_divide_less_eq)
  then show "float_mod a b < b" by (simp add: float_mod_def algebra_simps)
qed

lemma distance_angle_sym: "distance_angle a b = distance_angle b a"
  by (simp add: distance_angle_def abs_minus_commute)

lemma distance_angle_range: "0 \<le> distance_angle a b" "distance_angle a b \<le> pi"
  using float_mod_range[of "2 * pi" "\<bar>b - a\<bar>"]
  by (auto simp: distance_angle_def Let_def)

lemma distance_angle_self: "distance_angle a a = 0"
  by (simp add: distance_angle_def float_mod_def)

lemma distance_angle_is_offset:
  "\<exists>k::int. distance_angle a b = \<bar>b - a + 2 * pi * of_int k\<bar>"
proof -
  define m where "m = \<lfloor>\<bar>b - a\<bar> / (2 * pi)\<rfloor>"
  define phi where "phi = float_mod \<bar>b - a\<bar> (2 * pi)"
  have phi: "phi = \<bar>b - a\<bar> - 2 * pi * of_int m"
    by (simp add: phi_def m_def float_mod_def)
  have r: "0 \<le> phi" "phi < 2 * pi"
    using float_mod_range[of "2 * pi" "\<bar>b - a\<bar>"] by (simp_all add: phi_def)
  have d: "distance_angle a b = (if phi > pi then 2 * pi - phi else phi)"
    by (simp add: distance_angle_def phi_def)
  show ?thesis
  proof (cases "0 \<le> b - a")
    case pos: True
    show ?thesis
    proof (cases "phi > pi")
      case True
      have "distance_angle a b = \<bar>b - a + 2 * pi * of_int (- m - 1)\<bar>"
        using d True r phi pos by (simp add: algebra_simps)
      then show ?thesis by blast
    next
      case False
      have "distance_angle a b = \<bar>b - a + 2 * pi * of_int (- m)\<bar>"
        using d False r phi pos by (simp add: algebra_simps)
      then show ?thesis by blast
    qed
  next
    case neg: False
    show ?thesis
    proof (cases "phi > pi")
      case True
      have "distance_angle a b = \<bar>b - a + 2 * pi * of_int (m + 1)\<bar>"
        using d True r phi neg by (simp add: algebra_simps)
      then show ?thesis by blast
    next
      case False
      have "distance_angle a b = \<bar>b - a + 2 * pi * of_int m\<bar>"
        using d False r phi neg by (simp add: algebra_simps)
      then show ?thesis by blast
    qed
  qed
qed

lemma distance_angle_least: "distance_angle a b \<le> \<bar>b - a + 2 * pi * of_int k\<bar>"
proof -
  define m where "m = \<lfloor>\<bar>b - a\<bar> / (2 * pi)\<rfloor>"
  define phi where "phi = float_mod \<bar>b - a\<bar> (2 * pi)"
  have phi: "\<bar>b - a\<bar> = phi + 2 * pi * of_int m"
    by (simp add: phi_def m_def float_mod_def)
  have r: "0 \<le> phi" "phi < 2 * pi"
    using float_mod_range[of "2 * pi" "\<bar>b - a\<bar>"] by (simp_all add: phi_def)
  have d: "distance_angle a b \<le> phi" "distance_angle a b \<le> 2 * pi - phi"
    using r by (auto simp: distance_angle_def phi_def[symmetric] Let_def)
  have key: "distance_angle a b \<le> \<bar>phi + 2 * pi * of_int j\<bar>" for j :: int
  proof (cases "0 \<le> j")
    case True
    then have "0 \<le> 2 * pi * of_int j" by simp
    then show ?thesis using d r by linarith
  next
    case False
    then have "j \<le> -1" by simp
    then have "(of_int j :: real) \<le> -1" by (metis of_int_le_iff of_int_minus of_int_1)
    then have "2 * pi * of_int j \<le> - (2 * pi)" using pi_gt_zero
      by (metis mult_le_cancel_left_pos mult_minus_right mult.right_neutral mult_pos_pos
          zero_less_numeral)
    then show ?thesis using d r by linarith
  qed
  show ?thesis
  proof (cases "0 \<le> b - a")
    case True
    then have "b - a + 2 * pi * of_int k = phi + 2 * pi * of_int (m + k)"
      using phi by (simp add: algebra_simps)
    then show ?thesis using key[of "m + k"] by simp
  next
    case False
    then have "- (b - a + 2 * pi * of_int k) = phi + 2 * pi * of_int (m - k)"
      using phi by (simp add: algebra_simps)
    then have "\<bar>b - a + 2 * pi * of_int k\<bar> = \<bar>phi + 2 * pi * of_int (m - k)\<bar>"
      by (metis abs_minus_cancel)
    then show ?thesis using key[of "m - k"] by simp
  qed
qed

text \<open>
  Claim C9. \<open>distance_angle\<close> is symmetric, its result lies in the closed interval from 0
  to \<open>pi\<close>, and it is the shorter circular distance between the two angles: it is the
  distance of \<open>beta - alpha\<close> to some whole multiple of a full turn, and no whole multiple of a
  full turn is closer.
\<close>

theorem distance_angle_circular:
  "distance_angle alpha beta = distance_angle beta alpha
   \<and> 0 \<le> distance_angle alpha beta
   \<and> distance_angle alpha beta \<le> pi
   \<and> (\<exists>k::int. distance_angle alpha beta = \<bar>beta - alpha + 2 * pi * of_int k\<bar>)
   \<and> (\<forall>k::int. distance_angle alpha beta \<le> \<bar>beta - alpha + 2 * pi * of_int k\<bar>)"
  using distance_angle_sym[of alpha beta] distance_angle_range[of alpha beta]
    distance_angle_is_offset[of alpha beta] distance_angle_least[of alpha beta]
  by blast

subsection \<open>Vectors, thresholds and one pass of the loop\<close>

lemma vec2list_id: "vec2list v = v"
  by (cases v) (simp add: vec2list_def c0_def c1_def c2_def)

lemma c1_set_c1: "c1 (set_c1 v y) = y"
  by (simp add: set_c1_def c1_def)

lemma diff_pos_sym: "diff_pos p q = diff_pos q p"
  by (simp add: diff_pos_def vec2list_id power2_commute)

lemma diff_pos_self: "diff_pos p p = 0"
  by (simp add: diff_pos_def vec2list_id)

lemma diff_pos_le_iff:
  "0 \<le> t \<Longrightarrow>
   diff_pos p q \<le> t \<longleftrightarrow> (c0 p - c0 q)\<^sup>2 + (c1 p - c1 q)\<^sup>2 + (c2 p - c2 q)\<^sup>2 \<le> t\<^sup>2"
proof -
  assume t: "0 \<le> t"
  let ?s = "(c0 p - c0 q)\<^sup>2 + (c1 p - c1 q)\<^sup>2 + (c2 p - c2 q)\<^sup>2"
  have "sqrt ?s \<le> t \<longleftrightarrow> sqrt ?s \<le> sqrt (t\<^sup>2)" using t by simp
  also have "\<dots> \<longleftrightarrow> ?s \<le> t\<^sup>2" by (rule real_sqrt_le_iff)
  finally show ?thesis by (simp add: diff_pos_def vec2list_id)
qed

lemma within_thresholds_sym: "within_thresholds p q = within_thresholds q p"
  by (simp add: within_thresholds_def diff_pos_sym[of "fst p"] distance_angle_sym[of "snd p"])

lemma within_thresholds_refl: "within_thresholds p p"
  by (simp add: within_thresholds_def diff_pos_self distance_angle_self
      has_visited_threshold_pos_def has_visited_threshold_rot_def)

lemma flag_distinct_of_iff:
  "flag_distinct_of V p r \<longleftrightarrow> list_all (\<lambda>q. \<not> within_thresholds q (p, r)) V"
  by (induction V p r rule: flag_distinct_of.induct) (auto simp: within_thresholds_def)

lemma deduplicated_snoc:
  "deduplicated (V @ [p]) \<longleftrightarrow> deduplicated V \<and> list_all (\<lambda>q. \<not> within_thresholds q p) V"
  by (induction V) auto

lemma deduplicated_nth:
  "deduplicated V \<longleftrightarrow>
   (\<forall>i j. i < j \<and> j < length V \<longrightarrow> \<not> within_thresholds (V ! i) (V ! j))"
proof (induction V)
  case Nil
  show ?case by simp
next
  case (Cons p ps)
  show ?case
  proof
    assume d: "deduplicated (p # ps)"
    show "\<forall>i j. i < j \<and> j < length (p # ps) \<longrightarrow> \<not> within_thresholds ((p # ps) ! i) ((p # ps) ! j)"
    proof (intro allI impI)
      fix i j assume ij: "i < j \<and> j < length (p # ps)"
      then obtain j' where j': "j = Suc j'" by (cases j) auto
      show "\<not> within_thresholds ((p # ps) ! i) ((p # ps) ! j)"
      proof (cases i)
        case 0
        then show ?thesis using d ij j' by (auto simp: list_all_length)
      next
        case (Suc i')
        then show ?thesis using d ij j' Cons.IH by auto
      qed
    qed
  next
    assume a: "\<forall>i j. i < j \<and> j < length (p # ps) \<longrightarrow> \<not> within_thresholds ((p # ps) ! i) ((p # ps) ! j)"
    have "list_all (\<lambda>q. \<not> within_thresholds p q) ps"
      unfolding list_all_length
    proof (intro allI impI)
      fix k assume "k < length ps"
      then show "\<not> within_thresholds p (ps ! k)" using a[rule_format, of 0 "Suc k"] by simp
    qed
    moreover have "deduplicated ps"
      unfolding Cons.IH
    proof (intro allI impI)
      fix i j assume "i < j \<and> j < length ps"
      then show "\<not> within_thresholds (ps ! i) (ps ! j)"
        using a[rule_format, of "Suc i" "Suc j"] by simp
    qed
    ultimately show "deduplicated (p # ps)" by simp
  qed
qed

lemma render_limit_never: "\<not> render_limit_reached a"
  by (simp add: render_limit_reached_def DEFAULT_RENDER_STEPS_LIMIT_def)

lemma recording_full_iff: "recording_full a \<longleftrightarrow> save_actions a \<and> save_actions_count a < 0"
  by (simp add: recording_full_def)

lemma robot_eta: "\<lparr>base_pos = base_pos r, base_rot = base_rot r\<rparr> = (r :: robot)"
  by (cases r) simp

lemma passable_pose_of:
  "passable s (pose_of r) \<longleftrightarrow> is_navigable s (base_pos r) \<and> \<not> contact_test s r"
  by (simp add: passable_def pose_of_def vec2list_id robot_eta)

lemma move_base_Inr:
  assumes "move_base s bp br act st = Inr st1"
  shows "ctrl_freq s \<noteq> 0"
    and "pose_of (robot st1) = next_pose s (bp, br) act"
    and "visit_pos_rot st1 = visit_pos_rot st"
    and "integrate_calls st1 =
           integrate_calls st @ [(fst act * 10, snd act * 50, \<lparr>base_pos = bp, base_rot = br\<rparr>)]"
  using assms
  by (auto simp: move_base_def Let_def pose_of_def next_pose_def vec2list_id split: if_splits)

lemma move_base_Inl:
  "move_base s bp br act st = Inl e \<Longrightarrow> ctrl_freq s = 0 \<and> e = ZeroDivisionError"
  by (auto simp: move_base_def Let_def split: if_splits)

lemma move_base_defined:
  "ctrl_freq s \<noteq> 0 \<Longrightarrow> \<exists>st1. move_base s bp br act st = Inr st1"
  by (simp add: move_base_def Let_def)

lemma mark_visited_eq:
  assumes "mark_visited st1 = (f, st2)"
  shows "robot st2 = robot st1"
    and "integrate_calls st2 = integrate_calls st1"
    and "f = flag_distinct_of (visit_pos_rot st1) (base_pos (robot st1)) (base_rot (robot st1))"
    and "visit_pos_rot st2 = (if f then visit_pos_rot st1 @ [pose_of (robot st1)] else visit_pos_rot st1)"
  using assms
  by (auto simp: mark_visited_def Let_def pose_of_def split: if_splits)

text \<open>How a call of \<open>play_env\<close> that returns has run.\<close>

lemma play_env_return_cases:
  assumes "play_env (Suc n) s a level flag st = Some (Inr (v, st'))"
  shows "(recording_full a \<and> v = PyNone \<and> st' = st)
       \<or> (\<not> recording_full a \<and> (\<not> passable s (pose_of (robot st)) \<or> \<not> flag) \<and> v = PyInt 0 \<and> st' = st)
       \<or> (\<not> recording_full a \<and> passable s (pose_of (robot st)) \<and> flag
          \<and> (\<exists>st1 f1 st2 k1 st3 st4 f2 st5 k2.
                move_base s (base_pos (robot st)) (base_rot (robot st)) (0, 1) st = Inr st1
              \<and> mark_visited st1 = (f1, st2)
              \<and> play_env n s a (level + 1) f1 st2 = Some (Inr (PyInt k1, st3))
              \<and> move_base s (base_pos (robot st)) (base_rot (robot st)) (1, 0) st3 = Inr st4
              \<and> mark_visited st4 = (f2, st5)
              \<and> play_env n s a (level + 1) f2 st5 = Some (Inr (PyInt k2, st'))
              \<and> v = PyInt (1 + k1 + k2)))"
  using assms
  by (auto simp: render_limit_never passable_pose_of Let_def
      split: if_splits sum.splits prod.splits option.splits pyval.splits)

subsection \<open>The visited list only grows, by distinct poses\<close>

lemma added_distinct_append:
  "added_distinct V (xs @ ys) \<longleftrightarrow> added_distinct V xs \<and> added_distinct (V @ xs) ys"
  by (induction xs arbitrary: V) auto

lemma added_distinct_deduplicated:
  "deduplicated V \<Longrightarrow> added_distinct V new \<Longrightarrow> deduplicated (V @ new)"
proof (induction new arbitrary: V)
  case Nil
  then show ?case by simp
next
  case (Cons p ps)
  have "deduplicated (V @ [p])"
    using Cons.prems by (cases p) (simp add: deduplicated_snoc flag_distinct_of_iff)
  moreover have "added_distinct (V @ [p]) ps" using Cons.prems by simp
  ultimately have "deduplicated ((V @ [p]) @ ps)" by (rule Cons.IH)
  then show ?case by simp
qed

lemma mark_visited_grows:
  assumes "mark_visited st1 = (f, st2)"
  shows "\<exists>new. visit_pos_rot st2 = visit_pos_rot st1 @ new \<and> added_distinct (visit_pos_rot st1) new
          \<and> new = (if f then [pose_of (robot st1)] else [])"
  using mark_visited_eq[OF assms] by (auto simp: pose_of_def vec2list_id)

lemma play_env_visit_grows:
  "play_env n s a level flag st = Some (Inr (v, st')) \<Longrightarrow>
   \<exists>new. visit_pos_rot st' = visit_pos_rot st @ new \<and> added_distinct (visit_pos_rot st) new"
proof (induction n arbitrary: level flag st v st')
  case 0
  then show ?case by simp
next
  case (Suc n)
  from play_env_return_cases[OF Suc.prems]
  consider "st' = st"
    | st1 f1 st2 k1 st3 st4 f2 st5 k2 where
        "move_base s (base_pos (robot st)) (base_rot (robot st)) (0, 1) st = Inr st1"
        "mark_visited st1 = (f1, st2)"
        "play_env n s a (level + 1) f1 st2 = Some (Inr (PyInt k1, st3))"
        "move_base s (base_pos (robot st)) (base_rot (robot st)) (1, 0) st3 = Inr st4"
        "mark_visited st4 = (f2, st5)"
        "play_env n s a (level + 1) f2 st5 = Some (Inr (PyInt k2, st'))"
    by blast
  then show ?case
  proof cases
    case 1
    then show ?thesis by simp
  next
    case 2
    obtain n1 where n1: "visit_pos_rot st2 = visit_pos_rot st @ n1" "added_distinct (visit_pos_rot st) n1"
      using mark_visited_grows[OF 2(2)] move_base_Inr(3)[OF 2(1)] by auto
    obtain m1 where m1: "visit_pos_rot st3 = visit_pos_rot st2 @ m1" "added_distinct (visit_pos_rot st2) m1"
      using Suc.IH[OF 2(3)] by auto
    obtain n2 where n2: "visit_pos_rot st5 = visit_pos_rot st3 @ n2" "added_distinct (visit_pos_rot st3) n2"
      using mark_visited_grows[OF 2(5)] move_base_Inr(3)[OF 2(4)] by auto
    obtain m2 where m2: "visit_pos_rot st' = visit_pos_rot st5 @ m2" "added_distinct (visit_pos_rot st5) m2"
      using Suc.IH[OF 2(6)] by auto
    have "visit_pos_rot st' = visit_pos_rot st @ (n1 @ m1 @ n2 @ m2)"
      using n1 m1 n2 m2 by simp
    moreover have "added_distinct (visit_pos_rot st) (n1 @ m1 @ n2 @ m2)"
      using n1 m1 n2 m2 by (simp add: added_distinct_append)
    ultimately show ?thesis by blast
  qed
qed

subsection \<open>What a returning call counts, integrates and leaves unchanged\<close>

lemma play_env_counts:
  "play_env n s a level flag st = Some (Inr (v, st')) \<Longrightarrow> \<not> recording_full a \<Longrightarrow>
   \<exists>new. visit_pos_rot st' = visit_pos_rot st @ new
     \<and> (\<not> flag \<longrightarrow> new = [])
     \<and> v = PyInt (if flag then int (length (filter (passable s) (pose_of (robot st) # new))) else 0)"
proof (induction n arbitrary: level flag st v st')
  case 0
  then show ?case by simp
next
  case (Suc n)
  from play_env_return_cases[OF Suc.prems(1)] Suc.prems(2)
  consider "(\<not> passable s (pose_of (robot st)) \<or> \<not> flag)" "v = PyInt 0" "st' = st"
    | st1 f1 st2 k1 st3 st4 f2 st5 k2 where
        "passable s (pose_of (robot st))" "flag"
        "move_base s (base_pos (robot st)) (base_rot (robot st)) (0, 1) st = Inr st1"
        "mark_visited st1 = (f1, st2)"
        "play_env n s a (level + 1) f1 st2 = Some (Inr (PyInt k1, st3))"
        "move_base s (base_pos (robot st)) (base_rot (robot st)) (1, 0) st3 = Inr st4"
        "mark_visited st4 = (f2, st5)"
        "play_env n s a (level + 1) f2 st5 = Some (Inr (PyInt k2, st'))"
        "v = PyInt (1 + k1 + k2)"
    by blast
  then show ?case
  proof cases
    case 1
    then show ?thesis by auto
  next
    case 2
    have step: "\<exists>N. visit_pos_rot sc = visit_pos_rot sa @ N \<and> k = int (length (filter (passable s) N))"
      if mv: "move_base s bp br act sa = Inr sb" and mk: "mark_visited sb = (f, sm)"
        and pe: "play_env n s a (level + 1) f sm = Some (Inr (PyInt k, sc))"
      for sa sb sm sc bp br act f k
    proof -
      obtain m where m: "visit_pos_rot sc = visit_pos_rot sm @ m" "\<not> f \<longrightarrow> m = []"
        "PyInt k = PyInt (if f then int (length (filter (passable s) (pose_of (robot sm) # m))) else 0)"
        using Suc.IH[OF pe Suc.prems(2)] by blast
      have r: "robot sm = robot sb" and vs: "visit_pos_rot sm = (if f then visit_pos_rot sb @ [pose_of (robot sb)] else visit_pos_rot sb)"
        using mark_visited_eq[OF mk] by simp_all
      have vb: "visit_pos_rot sb = visit_pos_rot sa" using move_base_Inr(3)[OF mv] .
      show ?thesis
      proof (cases f)
        case True
        then have "visit_pos_rot sc = visit_pos_rot sa @ (pose_of (robot sb) # m)"
          using m vs vb by simp
        moreover have "k = int (length (filter (passable s) (pose_of (robot sb) # m)))"
          using m(3) True r by simp
        ultimately show ?thesis by blast
      next
        case False
        then have "visit_pos_rot sc = visit_pos_rot sa @ []" using m vs vb by simp
        moreover have "k = int (length (filter (passable s) []))" using m(3) False by simp
        ultimately show ?thesis by blast
      qed
    qed
    obtain N1 where N1: "visit_pos_rot st3 = visit_pos_rot st @ N1" "k1 = int (length (filter (passable s) N1))"
      using step[OF 2(3) 2(4) 2(5)] by blast
    obtain N2 where N2: "visit_pos_rot st' = visit_pos_rot st3 @ N2" "k2 = int (length (filter (passable s) N2))"
      using step[OF 2(6) 2(7) 2(8)] by blast
    have "visit_pos_rot st' = visit_pos_rot st @ (N1 @ N2)" using N1 N2 by simp
    moreover have "v = PyInt (int (length (filter (passable s) (pose_of (robot st) # (N1 @ N2)))))"
      using 2(1) 2(9) N1(2) N2(2) by simp
    ultimately show ?thesis using 2(2) by auto
  qed
qed

lemma play_env_trace:
  "play_env n s a level flag st = Some (Inr (PyInt k, st')) \<Longrightarrow>
   0 \<le> k \<and> (\<exists>tr. integrate_calls st' = integrate_calls st @ tr
     \<and> length (filter (\<lambda>c. (fst c, fst (snd c)) = (0, 50)) tr) = nat k
     \<and> length (filter (\<lambda>c. (fst c, fst (snd c)) = (10, 0)) tr) = nat k
     \<and> length tr = 2 * nat k)"
proof (induction n arbitrary: level flag st k st')
  case 0
  then show ?case by simp
next
  case (Suc n)
  from play_env_return_cases[OF Suc.prems(1)]
  consider "k = 0" "st' = st"
    | st1 f1 st2 k1 st3 st4 f2 st5 k2 where
        "move_base s (base_pos (robot st)) (base_rot (robot st)) (0, 1) st = Inr st1"
        "mark_visited st1 = (f1, st2)"
        "play_env n s a (level + 1) f1 st2 = Some (Inr (PyInt k1, st3))"
        "move_base s (base_pos (robot st)) (base_rot (robot st)) (1, 0) st3 = Inr st4"
        "mark_visited st4 = (f2, st5)"
        "play_env n s a (level + 1) f2 st5 = Some (Inr (PyInt k2, st'))"
        "k = 1 + k1 + k2"
    by auto
  then show ?case
  proof cases
    case 1
    then show ?thesis by simp
  next
    case 2
    let ?r = "\<lparr>base_pos = base_pos (robot st), base_rot = base_rot (robot st)\<rparr>"
    have a1: "integrate_calls st2 = integrate_calls st @ [(0, 50, ?r)]"
      using move_base_Inr(4)[OF 2(1)] mark_visited_eq(2)[OF 2(2)] by simp
    obtain t1 where t1: "0 \<le> k1" "integrate_calls st3 = integrate_calls st2 @ t1"
      "length (filter (\<lambda>c. (fst c, fst (snd c)) = (0, 50)) t1) = nat k1"
      "length (filter (\<lambda>c. (fst c, fst (snd c)) = (10, 0)) t1) = nat k1"
      "length t1 = 2 * nat k1"
      using Suc.IH[OF 2(3)] by blast
    have a2: "integrate_calls st5 = integrate_calls st3 @ [(10, 0, ?r)]"
      using move_base_Inr(4)[OF 2(4)] mark_visited_eq(2)[OF 2(5)] by simp
    obtain t2 where t2: "0 \<le> k2" "integrate_calls st' = integrate_calls st5 @ t2"
      "length (filter (\<lambda>c. (fst c, fst (snd c)) = (0, 50)) t2) = nat k2"
      "length (filter (\<lambda>c. (fst c, fst (snd c)) = (10, 0)) t2) = nat k2"
      "length t2 = 2 * nat k2"
      using Suc.IH[OF 2(6)] by blast
    let ?tr = "(0, 50, ?r) # t1 @ (10, 0, ?r) # t2"
    have "integrate_calls st' = integrate_calls st @ ?tr" using a1 t1(2) a2 t2(2) by simp
    moreover have "length (filter (\<lambda>c. (fst c, fst (snd c)) = (0, 50)) ?tr) = nat k"
      using t1 t2 2(7) by (simp add: nat_add_distrib)
    moreover have "length (filter (\<lambda>c. (fst c, fst (snd c)) = (10, 0)) ?tr) = nat k"
      using t1 t2 2(7) by (simp add: nat_add_distrib)
    moreover have "length ?tr = 2 * nat k"
      using t1 t2 2(7) by (simp add: nat_add_distrib)
    moreover have "0 \<le> k" using t1(1) t2(1) 2(7) by simp
    ultimately show ?thesis by blast
  qed
qed

lemma move_base_height:
  "move_base s bp br act st = Inr st1 \<Longrightarrow> c1 (base_pos (robot st1)) = c1 bp"
  by (auto simp: move_base_def Let_def c1_set_c1 split: if_splits)

lemma play_env_height:
  "play_env n s a level flag st = Some (Inr (v, st')) \<Longrightarrow>
   c1 (base_pos (robot st')) = c1 (base_pos (robot st))
   \<and> (\<exists>new tr. visit_pos_rot st' = visit_pos_rot st @ new
        \<and> integrate_calls st' = integrate_calls st @ tr
        \<and> list_all (\<lambda>p. c1 (fst p) = c1 (base_pos (robot st))) new
        \<and> list_all (\<lambda>c. c1 (base_pos (snd (snd c))) = c1 (base_pos (robot st))) tr)"
proof (induction n arbitrary: level flag st v st')
  case 0
  then show ?case by simp
next
  case (Suc n)
  from play_env_return_cases[OF Suc.prems(1)]
  consider "st' = st"
    | st1 f1 st2 k1 st3 st4 f2 st5 k2 where
        "move_base s (base_pos (robot st)) (base_rot (robot st)) (0, 1) st = Inr st1"
        "mark_visited st1 = (f1, st2)"
        "play_env n s a (level + 1) f1 st2 = Some (Inr (PyInt k1, st3))"
        "move_base s (base_pos (robot st)) (base_rot (robot st)) (1, 0) st3 = Inr st4"
        "mark_visited st4 = (f2, st5)"
        "play_env n s a (level + 1) f2 st5 = Some (Inr (PyInt k2, st'))"
    by blast
  then show ?case
  proof cases
    case 1
    then show ?thesis by simp
  next
    case 2
    let ?y = "c1 (base_pos (robot st))"
    have step: "c1 (base_pos (robot sc)) = ?y
        \<and> (\<exists>new tr. visit_pos_rot sc = visit_pos_rot sa @ new
             \<and> integrate_calls sc = integrate_calls sa @ tr
             \<and> list_all (\<lambda>p. c1 (fst p) = ?y) new
             \<and> list_all (\<lambda>c. c1 (base_pos (snd (snd c))) = ?y) tr)"
      if mv: "move_base s (base_pos (robot st)) (base_rot (robot st)) act sa = Inr sb"
        and mk: "mark_visited sb = (f, sm)"
        and pe: "play_env n s a (level + 1) f sm = Some (Inr (PyInt k, sc))"
      for sa sb sm sc act f k
    proof -
      have yb: "c1 (base_pos (robot sb)) = ?y" using move_base_height[OF mv] .
      have ym: "c1 (base_pos (robot sm)) = ?y" using yb mark_visited_eq(1)[OF mk] by simp
      obtain m t where m: "c1 (base_pos (robot sc)) = ?y"
        "visit_pos_rot sc = visit_pos_rot sm @ m" "integrate_calls sc = integrate_calls sm @ t"
        "list_all (\<lambda>p. c1 (fst p) = ?y) m"
        "list_all (\<lambda>c. c1 (base_pos (snd (snd c))) = ?y) t"
        using Suc.IH[OF pe] ym by auto
      have vm: "visit_pos_rot sm = visit_pos_rot sa @ (if f then [pose_of (robot sb)] else [])"
        using mark_visited_eq(4)[OF mk] move_base_Inr(3)[OF mv] by simp
      have im: "integrate_calls sm = integrate_calls sa @
          [(fst act * 10, snd act * 50, \<lparr>base_pos = base_pos (robot st), base_rot = base_rot (robot st)\<rparr>)]"
        using mark_visited_eq(2)[OF mk] move_base_Inr(4)[OF mv] by simp
      let ?new = "(if f then [pose_of (robot sb)] else []) @ m"
      let ?tr = "(fst act * 10, snd act * 50, \<lparr>base_pos = base_pos (robot st), base_rot = base_rot (robot st)\<rparr>) # t"
      have "visit_pos_rot sc = visit_pos_rot sa @ ?new" using m(2) vm by simp
      moreover have "integrate_calls sc = integrate_calls sa @ ?tr" using m(3) im by simp
      moreover have "list_all (\<lambda>p. c1 (fst p) = ?y) ?new"
        using m(4) yb by (simp add: pose_of_def vec2list_id)
      moreover have "list_all (\<lambda>c. c1 (base_pos (snd (snd c))) = ?y) ?tr"
        using m(5) by simp
      ultimately show ?thesis using m(1) by blast
    qed
    obtain n1 t1 where s1: "visit_pos_rot st3 = visit_pos_rot st @ n1"
      "integrate_calls st3 = integrate_calls st @ t1"
      "list_all (\<lambda>p. c1 (fst p) = ?y) n1"
      "list_all (\<lambda>c. c1 (base_pos (snd (snd c))) = ?y) t1"
      using step[OF 2(1) 2(2) 2(3)] by blast
    obtain n2 t2 where s2: "c1 (base_pos (robot st')) = ?y"
      "visit_pos_rot st' = visit_pos_rot st3 @ n2"
      "integrate_calls st' = integrate_calls st3 @ t2"
      "list_all (\<lambda>p. c1 (fst p) = ?y) n2"
      "list_all (\<lambda>c. c1 (base_pos (snd (snd c))) = ?y) t2"
      using step[OF 2(4) 2(5) 2(6)] by blast
    have "visit_pos_rot st' = visit_pos_rot st @ (n1 @ n2)" using s1 s2 by simp
    moreover have "integrate_calls st' = integrate_calls st @ (t1 @ t2)" using s1 s2 by simp
    moreover have "list_all (\<lambda>p. c1 (fst p) = ?y) (n1 @ n2)" using s1 s2 by simp
    moreover have "list_all (\<lambda>c. c1 (base_pos (snd (snd c))) = ?y) (t1 @ t2)" using s1 s2 by simp
    ultimately show ?thesis using s2(1) by blast
  qed
qed

subsection \<open>Termination in a region that holds boundedly many distinct poses\<close>

lemma play_env_repeat_returns:
  "\<exists>r. play_env (Suc n) s a level False st = Some r"
  by (simp add: Let_def split: sum.splits)

lemma mark_visited_cases:
  obtains f sm where "mark_visited sb = (f, sm)"
  by (cases "mark_visited sb") auto

lemma play_env_region:
  assumes closure: "\<forall>q\<in>R. passable s q \<longrightarrow> next_pose s q (0, 1) \<in> R \<and> next_pose s q (1, 0) \<in> R"
  shows "play_env n s a level flag st = Some (Inr (v, st')) \<Longrightarrow> pose_of (robot st) \<in> R \<Longrightarrow>
         set (visit_pos_rot st) \<subseteq> R \<Longrightarrow> set (visit_pos_rot st') \<subseteq> R"
proof (induction n arbitrary: level flag st v st')
  case 0
  then show ?case by simp
next
  case (Suc n)
  from play_env_return_cases[OF Suc.prems(1)]
  consider "st' = st"
    | st1 f1 st2 k1 st3 st4 f2 st5 k2 where
        "passable s (pose_of (robot st))"
        "move_base s (base_pos (robot st)) (base_rot (robot st)) (0, 1) st = Inr st1"
        "mark_visited st1 = (f1, st2)"
        "play_env n s a (level + 1) f1 st2 = Some (Inr (PyInt k1, st3))"
        "move_base s (base_pos (robot st)) (base_rot (robot st)) (1, 0) st3 = Inr st4"
        "mark_visited st4 = (f2, st5)"
        "play_env n s a (level + 1) f2 st5 = Some (Inr (PyInt k2, st'))"
    by blast
  then show ?case
  proof cases
    case 1
    then show ?thesis using Suc.prems by simp
  next
    case 2
    have entry: "(base_pos (robot st), base_rot (robot st)) = pose_of (robot st)"
      by (simp add: pose_of_def vec2list_id)
    have step: "set (visit_pos_rot sc) \<subseteq> R"
      if mv: "move_base s (base_pos (robot st)) (base_rot (robot st)) act sa = Inr sb"
        and act: "act = (0, 1) \<or> act = (1, 0)"
        and mk: "mark_visited sb = (f, sm)"
        and pe: "play_env n s a (level + 1) f sm = Some (Inr (PyInt k, sc))"
        and sa: "set (visit_pos_rot sa) \<subseteq> R"
      for sa sb sm sc act f k
    proof -
      have "pose_of (robot sb) = next_pose s (pose_of (robot st)) act"
        using move_base_Inr(2)[OF mv] entry by simp
      then have pb: "pose_of (robot sb) \<in> R"
        using closure Suc.prems(2) 2(1) act by auto
      have "pose_of (robot sm) \<in> R" using pb mark_visited_eq(1)[OF mk] by simp
      moreover have "set (visit_pos_rot sm) \<subseteq> R"
        using mark_visited_eq(4)[OF mk] move_base_Inr(3)[OF mv] sa pb by auto
      ultimately show ?thesis using Suc.IH[OF pe] by simp
    qed
    have "set (visit_pos_rot st3) \<subseteq> R"
      using step[OF 2(2) _ 2(3) 2(4) Suc.prems(3)] by simp
    then show ?thesis using step[OF 2(5) _ 2(6) 2(7)] by simp
  qed
qed

lemma play_env_keeps_deduplicated:
  assumes "play_env n s a level flag st = Some (Inr (v, st'))" "deduplicated (visit_pos_rot st)"
  shows "deduplicated (visit_pos_rot st')" and "length (visit_pos_rot st) \<le> length (visit_pos_rot st')"
proof -
  obtain new where new: "visit_pos_rot st' = visit_pos_rot st @ new"
    "added_distinct (visit_pos_rot st) new"
    using play_env_visit_grows[OF assms(1)] by blast
  show "deduplicated (visit_pos_rot st')"
    using added_distinct_deduplicated[OF assms(2) new(2)] new(1) by simp
  show "length (visit_pos_rot st) \<le> length (visit_pos_rot st')" using new(1) by simp
qed

lemma play_env_terminates_aux:
  assumes closure: "\<forall>q\<in>R. passable s q \<longrightarrow> next_pose s q (0, 1) \<in> R \<and> next_pose s q (1, 0) \<in> R"
    and packing: "\<forall>V. deduplicated V \<and> set V \<subseteq> R \<longrightarrow> length V \<le> N"
  shows "pose_of (robot st) \<in> R \<Longrightarrow> set (visit_pos_rot st) \<subseteq> R \<Longrightarrow>
         deduplicated (visit_pos_rot st) \<Longrightarrow> N - length (visit_pos_rot st) \<le> m \<Longrightarrow>
         \<exists>r. play_env (m + 2) s a level flag st = Some r"
proof (induction m arbitrary: st level flag rule: less_induct)
  case (less m)
  let ?bp = "base_pos (robot st)" and ?br = "base_rot (robot st)"
  define recurse where "recurse = play_env (Suc m) s a (level + 1)"
  have entry: "(?bp, ?br) = pose_of (robot st)"
    by (simp add: pose_of_def vec2list_id)
  show ?case
  proof (cases "\<not> recording_full a \<and> passable s (pose_of (robot st)) \<and> flag")
    case False
    then show ?thesis by (auto simp: passable_pose_of Let_def split: sum.splits)
  next
    case True
    have rec: "\<exists>r. recurse f sm = Some r"
      if mv: "move_base s ?bp ?br act sa = Inr sb" and act: "act = (0, 1) \<or> act = (1, 0)"
        and mk: "mark_visited sb = (f, sm)"
        and sa: "set (visit_pos_rot sa) \<subseteq> R" "deduplicated (visit_pos_rot sa)"
          "N - length (visit_pos_rot sa) \<le> m"
      for sa sb sm act f
    proof (cases f)
      case False
      then show ?thesis
        using play_env_repeat_returns[of m s a "level + 1" sm] by (auto simp: recurse_def)
    next
      case f: True
      have "pose_of (robot sb) = next_pose s (pose_of (robot st)) act"
        using move_base_Inr(2)[OF mv] entry by simp
      then have pb: "pose_of (robot sb) \<in> R"
        using closure less.prems(1) True act by auto
      have vm: "visit_pos_rot sm = visit_pos_rot sa @ [pose_of (robot sb)]"
        using mark_visited_eq(4)[OF mk] move_base_Inr(3)[OF mv] f by simp
      have "flag_distinct_of (visit_pos_rot sa) (base_pos (robot sb)) (base_rot (robot sb))"
        using mark_visited_eq(3)[OF mk] move_base_Inr(3)[OF mv] f by simp
      then have dm: "deduplicated (visit_pos_rot sm)"
        using sa(2) vm by (simp add: deduplicated_snoc flag_distinct_of_iff pose_of_def vec2list_id)
      have sm: "set (visit_pos_rot sm) \<subseteq> R" using vm sa(1) pb by simp
      have "length (visit_pos_rot sm) \<le> N" using packing dm sm by blast
      then have lt: "N - length (visit_pos_rot sm) < m" "0 < m"
        using vm sa(3) by auto
      then obtain m' where m': "m = Suc m'" by (cases m) auto
      have "N - length (visit_pos_rot sm) \<le> m'" using lt m' by simp
      moreover have "pose_of (robot sm) \<in> R" using pb mark_visited_eq(1)[OF mk] by simp
      ultimately have "\<exists>r. play_env (m' + 2) s a (level + 1) f sm = Some r"
        using less.IH[of m' sm] sm dm m' by simp
      then show ?thesis using m' by (simp add: recurse_def)
    qed
    have post: "set (visit_pos_rot sc) \<subseteq> R \<and> deduplicated (visit_pos_rot sc)
                \<and> N - length (visit_pos_rot sc) \<le> m"
      if mv: "move_base s ?bp ?br act sa = Inr sb" and act: "act = (0, 1) \<or> act = (1, 0)"
        and mk: "mark_visited sb = (f, sm)"
        and pe: "recurse f sm = Some (Inr (v, sc))"
        and sa: "set (visit_pos_rot sa) \<subseteq> R" "deduplicated (visit_pos_rot sa)"
          "N - length (visit_pos_rot sa) \<le> m"
      for sa sb sm sc act f v
    proof -
      have "pose_of (robot sb) = next_pose s (pose_of (robot st)) act"
        using move_base_Inr(2)[OF mv] entry by simp
      then have pb: "pose_of (robot sb) \<in> R"
        using closure less.prems(1) True act by auto
      have pm: "pose_of (robot sm) \<in> R" using pb mark_visited_eq(1)[OF mk] by simp
      have vm: "visit_pos_rot sm = (if f then visit_pos_rot sa @ [pose_of (robot sb)] else visit_pos_rot sa)"
        using mark_visited_eq(4)[OF mk] move_base_Inr(3)[OF mv] by simp
      have fd: "f = flag_distinct_of (visit_pos_rot sa) (base_pos (robot sb)) (base_rot (robot sb))"
        using mark_visited_eq(3)[OF mk] move_base_Inr(3)[OF mv] by simp
      have dm: "deduplicated (visit_pos_rot sm)"
        using sa(2) vm fd by (auto simp: deduplicated_snoc flag_distinct_of_iff pose_of_def vec2list_id)
      have sm: "set (visit_pos_rot sm) \<subseteq> R" using vm sa(1) pb by auto
      have pe': "play_env (Suc m) s a (level + 1) f sm = Some (Inr (v, sc))"
        using pe by (simp only: recurse_def)
      have "set (visit_pos_rot sc) \<subseteq> R" using play_env_region[OF closure pe' pm sm] .
      moreover have "deduplicated (visit_pos_rot sc)"
        using play_env_keeps_deduplicated(1)[OF pe' dm] .
      moreover have "length (visit_pos_rot sa) \<le> length (visit_pos_rot sc)"
        using play_env_keeps_deduplicated(2)[OF pe' dm] vm by (auto split: if_splits)
      ultimately show ?thesis using sa(3) by simp
    qed
    have loop: "\<exists>r. for_base_action recurse s ?bp ?br acts ans sa = Some r"
      if "set acts \<subseteq> {(0, 1), (1, 0)}" "set (visit_pos_rot sa) \<subseteq> R"
        "deduplicated (visit_pos_rot sa)" "N - length (visit_pos_rot sa) \<le> m"
      for acts ans sa
      using that
    proof (induction acts arbitrary: ans sa)
      case Nil
      then show ?case by simp
    next
      case (Cons act acts)
      have act: "act = (0, 1) \<or> act = (1, 0)" using Cons.prems(1) by auto
      show ?case
      proof (cases "move_base s ?bp ?br act sa")
        case (Inl e)
        then show ?thesis by simp
      next
        case (Inr sb)
        obtain f sm where mk: "mark_visited sb = (f, sm)" by (rule mark_visited_cases)
        obtain r where r: "recurse f sm = Some r"
          using rec[OF Inr act mk Cons.prems(2,3,4)] by blast
        show ?thesis
        proof (cases r)
          case (Inl e)
          then show ?thesis using Inr mk r by simp
        next
          case r': (Inr vs)
          obtain v sc where vs: "vs = (v, sc)" by (cases vs) auto
          show ?thesis
          proof (cases v)
            case PyNone
            then show ?thesis using Inr mk r r' vs by simp
          next
            case (PyInt k)
            have "set (visit_pos_rot sc) \<subseteq> R \<and> deduplicated (visit_pos_rot sc)
                \<and> N - length (visit_pos_rot sc) \<le> m"
              using post[OF Inr act mk _ Cons.prems(2,3,4)] r r' vs by simp
            then have "\<exists>r. for_base_action recurse s ?bp ?br acts (ans + k) sc = Some r"
              using Cons.IH[of sc "ans + k"] Cons.prems(1) by simp
            then show ?thesis using Inr mk r r' vs PyInt by simp
          qed
        qed
      qed
    qed
    have "\<exists>r. for_base_action recurse s ?bp ?br [(0, 1), (1, 0)] 1 st = Some r"
      using loop[of "[(0, 1), (1, 0)]" st 1] less.prems by simp
    then show ?thesis
      using True
      by (simp add: passable_pose_of render_limit_never Let_def recurse_def split: sum.splits)
  qed
qed

subsection \<open>Evaluating concrete runs\<close>

lemmas eval_defs =
  use_arm_actions_def recording_full_def render_limit_reached_def DEFAULT_RENDER_STEPS_LIMIT_def
  move_base_def mark_visited_def Let_def
  c0_def c1_def c2_def set_c1_def vec2list_def
  corridor_sim_def endless_sim_def drifting_sim_def stalled_sim_def walled_sim_def
  origin_def start_state_def
  no_render_args_def negative_count_args_def missing_file_args_def recording_args_def
  add_ik_args_def rendering_args_def

lemma threshold_pos_nonneg: "0 \<le> has_visited_threshold_pos"
  by (simp add: has_visited_threshold_pos_def)

lemma diff_pos_threshold:
  "diff_pos p q \<le> has_visited_threshold_pos \<longleftrightarrow>
   (c0 p - c0 q)\<^sup>2 + (c1 p - c1 q)\<^sup>2 + (c2 p - c2 q)\<^sup>2 \<le> 1 / 10000"
  using diff_pos_le_iff[OF threshold_pos_nonneg, of p q]
  by (simp add: has_visited_threshold_pos_def power2_eq_square)

lemma distance_angle_threshold_self: "distance_angle a a \<le> has_visited_threshold_rot"
  by (simp add: distance_angle_self has_visited_threshold_rot_def)

lemma corridor_run:
  "play_env (Suc (Suc (Suc (Suc 0)))) corridor_sim no_render_args 0 True start_state
   = Some (Inr (PyInt 3, corridor_end))"
  by (simp add: eval_defs diff_pos_threshold distance_angle_threshold_self corridor_end_def)

subsection \<open>Depth and exceptions\<close>

lemma for_base_action_mono:
  assumes "\<And>f st r. rec1 f st = Some r \<Longrightarrow> rec2 f st = Some r"
  shows "for_base_action rec1 s bp br acts ans st = Some r \<Longrightarrow>
         for_base_action rec2 s bp br acts ans st = Some r"
proof (induction acts arbitrary: ans st)
  case Nil
  then show ?case by simp
next
  case (Cons act acts)
  show ?case
  proof (cases "move_base s bp br act st")
    case (Inl e)
    then show ?thesis using Cons.prems by simp
  next
    case (Inr sb)
    obtain f sm where mk: "mark_visited sb = (f, sm)" by (rule mark_visited_cases)
    show ?thesis
    proof (cases "rec1 f sm")
      case None
      then show ?thesis using Cons.prems Inr mk by simp
    next
      case (Some r1)
      then have r2: "rec2 f sm = Some r1" by (rule assms)
      show ?thesis
        using Cons.prems Inr mk Some r2 Cons.IH
        by (auto split: sum.splits prod.splits pyval.splits)
    qed
  qed
qed

lemma play_env_Suc_mono:
  "play_env n s a level flag st = Some r \<Longrightarrow> play_env (Suc n) s a level flag st = Some r"
proof (induction n arbitrary: level flag st r)
  case 0
  then show ?case by simp
next
  case (Suc n)
  have step: "\<And>f st r. play_env n s a (level + 1) f st = Some r \<Longrightarrow>
                play_env (Suc n) s a (level + 1) f st = Some r"
    by (rule Suc.IH)
  show ?case
  proof (cases "use_arm_actions s a")
    case (Inl e)
    then show ?thesis using Suc.prems by simp
  next
    case (Inr loaded)
    show ?thesis
    proof (cases "recording_full a \<or> \<not> is_navigable s (base_pos (robot st))
                  \<or> contact_test s (robot st) \<or> \<not> flag")
      case True
      then show ?thesis using Suc.prems Inr by (auto simp: Let_def render_limit_never)
    next
      case False
      then have "for_base_action (play_env n s a (level + 1)) s (base_pos (robot st))
                   (base_rot (robot st)) [(0, 1), (1, 0)] 1 st = Some r"
        using Suc.prems Inr by (simp add: Let_def render_limit_never)
      then have "for_base_action (play_env (Suc n) s a (level + 1)) s (base_pos (robot st))
                   (base_rot (robot st)) [(0, 1), (1, 0)] 1 st = Some r"
        by (rule for_base_action_mono[rotated]) (rule step)
      then show ?thesis using False Inr
        by (subst play_env.simps) (simp add: Let_def render_limit_never)
    qed
  qed
qed

lemma play_env_mono:
  "play_env n s a level flag st = Some r \<Longrightarrow> n \<le> m \<Longrightarrow> play_env m s a level flag st = Some r"
proof (induction m)
  case 0
  then show ?case by simp
next
  case (Suc m)
  show ?case
  proof (cases "n = Suc m")
    case True
    then show ?thesis using Suc.prems by simp
  next
    case False
    then have "play_env m s a level flag st = Some r" using Suc by simp
    then show ?thesis by (rule play_env_Suc_mono)
  qed
qed

lemma for_base_action_errors:
  assumes "\<And>f st e. recurse f st = Some (Inl e) \<Longrightarrow>
             e = ZeroDivisionError \<or> e = TypeError \<or> e = FileNotFoundError \<or> e = LoadError"
  shows "for_base_action recurse s bp br acts ans st = Some (Inl e) \<Longrightarrow>
         e = ZeroDivisionError \<or> e = TypeError \<or> e = FileNotFoundError \<or> e = LoadError"
proof (induction acts arbitrary: ans st)
  case Nil
  then show ?case by simp
next
  case (Cons act acts)
  show ?case
  proof (cases "move_base s bp br act st")
    case (Inl e')
    then show ?thesis using Cons.prems move_base_Inl[OF Inl] by simp
  next
    case (Inr sb)
    obtain f sm where mk: "mark_visited sb = (f, sm)" by (rule mark_visited_cases)
    show ?thesis
      using Cons.prems Inr mk Cons.IH assms[of f sm]
      by (auto split: option.splits sum.splits prod.splits pyval.splits)
  qed
qed

lemma play_env_errors:
  "play_env n s a level flag st = Some (Inl e) \<Longrightarrow>
   e = ZeroDivisionError \<or> e = TypeError \<or> e = FileNotFoundError \<or> e = LoadError"
proof (induction n arbitrary: level flag st e)
  case 0
  then show ?case by simp
next
  case (Suc n)
  show ?case
  proof (cases "use_arm_actions s a")
    case (Inl e')
    then have "e' = FileNotFoundError \<or> e' = LoadError"
      by (auto simp: use_arm_actions_def split: option.splits file_status.splits)
    then show ?thesis using Suc.prems Inl by auto
  next
    case (Inr loaded)
    then have "for_base_action (play_env n s a (level + 1)) s (base_pos (robot st))
            (base_rot (robot st)) [(0, 1), (1, 0)] 1 st = Some (Inl e)"
      using Suc.prems by (auto simp: Let_def split: if_splits)
    then show ?thesis by (rule for_base_action_errors[rotated]) (rule Suc.IH)
  qed
qed

subsection \<open>A corridor without end\<close>

lemma far_ahead:
  assumes "c0 q \<le> x"
  shows "\<not> diff_pos q (x + 1, y, z) \<le> has_visited_threshold_pos"
proof -
  have "\<bar>1::real\<bar> \<le> \<bar>c0 q - (x + 1)\<bar>" using assms by simp
  then have "(1::real)\<^sup>2 \<le> (c0 q - (x + 1))\<^sup>2" by (simp only: abs_le_square_iff)
  then have "1 \<le> (c0 q - (x + 1))\<^sup>2" by simp
  then have "1 \<le> (c0 q - (x + 1))\<^sup>2 + (c1 q - y)\<^sup>2 + (c2 q - z)\<^sup>2"
    using zero_le_power2[of "c1 q - y"] zero_le_power2[of "c2 q - z"] by linarith
  then show ?thesis by (simp add: diff_pos_threshold c0_def c1_def c2_def)
qed

lemma endless_never_returns:
  "list_all (\<lambda>p. c0 (fst p) \<le> c0 (base_pos (robot st))) (visit_pos_rot st) \<Longrightarrow>
   0 \<le> c0 (base_pos (robot st)) \<Longrightarrow>
   play_env n endless_sim no_render_args level True st = None"
proof (induction n arbitrary: level st)
  case 0
  show ?case by simp
next
  case (Suc n)
  let ?bp = "base_pos (robot st)" and ?br = "base_rot (robot st)"
  let ?x = "c0 ?bp"
  define recurse where "recurse = play_env n endless_sim no_render_args (level + 1)"
  have unfold: "play_env (Suc n) endless_sim no_render_args level True st
      = for_base_action recurse endless_sim ?bp ?br [(0, 1), (1, 0)] 1 st"
    using Suc.prems(2)
    by (simp add: recurse_def Let_def render_limit_never recording_full_def
        use_arm_actions_def endless_sim_def corridor_sim_def no_render_args_def)
  have cf: "ctrl_freq endless_sim \<noteq> 0" by (simp add: endless_sim_def corridor_sim_def)
  obtain sb where sb: "move_base endless_sim ?bp ?br (0, 1) st = Inr sb"
    using move_base_defined[OF cf] by blast
  obtain f sm where mk: "mark_visited sb = (f, sm)" by (rule mark_visited_cases)
  have sb_pos: "c0 (base_pos (robot sb)) = ?x" "visit_pos_rot sb = visit_pos_rot st"
    using sb by (auto simp: move_base_def Let_def endless_sim_def corridor_sim_def
        set_c1_def c0_def split: if_splits)
  show ?case
  proof (cases f)
    case True
    have "visit_pos_rot sm = visit_pos_rot st @ [pose_of (robot sb)]" "robot sm = robot sb"
      using mark_visited_eq[OF mk] True sb_pos by simp_all
    then have "list_all (\<lambda>p. c0 (fst p) \<le> c0 (base_pos (robot sm))) (visit_pos_rot sm)"
      "0 \<le> c0 (base_pos (robot sm))"
      using Suc.prems sb_pos by (simp_all add: pose_of_def vec2list_id)
    then have "recurse f sm = None" using Suc.IH True by (simp add: recurse_def)
    then show ?thesis using unfold sb mk by simp
  next
    case False
    have sm: "sm = sb" using mk False by (auto simp: mark_visited_def Let_def split: if_splits)
    have r1: "recurse f sm = (case n of 0 \<Rightarrow> None | Suc k \<Rightarrow> Some (Inr (PyInt 0, sb)))"
      using False sm
      by (cases n) (simp_all add: recurse_def Let_def render_limit_never recording_full_def
          use_arm_actions_def no_render_args_def)
    show ?thesis
    proof (cases n)
      case 0
      then show ?thesis using unfold sb mk r1 by simp
    next
      case (Suc k)
      obtain sd where sd: "move_base endless_sim ?bp ?br (1, 0) sb = Inr sd"
        using move_base_defined[OF cf] by blast
      have sd_pos: "base_pos (robot sd) = (?x + 1, c1 ?bp, c2 ?bp)"
        "visit_pos_rot sd = visit_pos_rot st"
        using sd sb_pos(2) by (auto simp: move_base_def Let_def endless_sim_def corridor_sim_def
            set_c1_def c0_def c1_def c2_def split: if_splits)
      obtain f2 se where mk2: "mark_visited sd = (f2, se)" by (rule mark_visited_cases)
      have "list_all (\<lambda>q. \<not> within_thresholds q (base_pos (robot sd), base_rot (robot sd)))
              (visit_pos_rot st)"
        using Suc.prems(1) sd_pos(1)
        by (simp add: list_all_iff within_thresholds_def far_ahead)
      then have f2: "f2" using mark_visited_eq(3)[OF mk2] sd_pos(2)
        by (simp add: flag_distinct_of_iff)
      have "visit_pos_rot se = visit_pos_rot st @ [pose_of (robot sd)]" "robot se = robot sd"
        using mark_visited_eq[OF mk2] f2 sd_pos by simp_all
      then have "list_all (\<lambda>p. c0 (fst p) \<le> c0 (base_pos (robot se))) (visit_pos_rot se)"
        "0 \<le> c0 (base_pos (robot se))"
        using Suc.prems sd_pos
        by (auto simp: pose_of_def vec2list_id c0_def list_all_iff)
      then have "recurse f2 se = None" using Suc.IH f2 by (simp add: recurse_def)
      then show ?thesis using unfold sb mk r1 Suc sd mk2 by simp
    qed
  qed
qed

lemma endless_from_start: "play_env n endless_sim no_render_args 0 True start_state = None"
  by (rule endless_never_returns) (simp_all add: start_state_def origin_def c0_def)

lemma drifting_never_returns:
  "list_all (\<lambda>p. c0 (fst p) \<le> c0 (base_pos (robot st))) (visit_pos_rot st) \<Longrightarrow>
   0 \<le> c0 (base_pos (robot st)) \<Longrightarrow>
   play_env n drifting_sim no_render_args level True st = None"
proof (induction n arbitrary: level st)
  case 0
  show ?case by simp
next
  case (Suc n)
  let ?bp = "base_pos (robot st)" and ?br = "base_rot (robot st)"
  let ?x = "c0 ?bp"
  define recurse where "recurse = play_env n drifting_sim no_render_args (level + 1)"
  have unfold: "play_env (Suc n) drifting_sim no_render_args level True st
      = for_base_action recurse drifting_sim ?bp ?br [(0, 1), (1, 0)] 1 st"
    using Suc.prems(2)
    by (simp add: recurse_def Let_def render_limit_never recording_full_def
        use_arm_actions_def drifting_sim_def endless_sim_def corridor_sim_def no_render_args_def)
  have cf: "ctrl_freq drifting_sim \<noteq> 0"
    by (simp add: drifting_sim_def endless_sim_def corridor_sim_def)
  obtain sb where sb: "move_base drifting_sim ?bp ?br (0, 1) st = Inr sb"
    using move_base_defined[OF cf] by blast
  have sb_pos: "base_pos (robot sb) = (?x + 1, c1 ?bp, c2 ?bp)"
    "visit_pos_rot sb = visit_pos_rot st"
    using sb by (auto simp: move_base_def Let_def drifting_sim_def endless_sim_def
        corridor_sim_def set_c1_def c0_def c1_def c2_def split: if_splits)
  obtain f sm where mk: "mark_visited sb = (f, sm)" by (rule mark_visited_cases)
  have "list_all (\<lambda>q. \<not> within_thresholds q (base_pos (robot sb), base_rot (robot sb)))
          (visit_pos_rot st)"
    using Suc.prems(1) sb_pos(1) by (simp add: list_all_iff within_thresholds_def far_ahead)
  then have f: "f" using mark_visited_eq(3)[OF mk] sb_pos(2) by (simp add: flag_distinct_of_iff)
  have "visit_pos_rot sm = visit_pos_rot st @ [pose_of (robot sb)]" "robot sm = robot sb"
    using mark_visited_eq[OF mk] f sb_pos by simp_all
  then have "list_all (\<lambda>p. c0 (fst p) \<le> c0 (base_pos (robot sm))) (visit_pos_rot sm)"
    "0 \<le> c0 (base_pos (robot sm))"
    using Suc.prems sb_pos by (auto simp: pose_of_def vec2list_id c0_def list_all_iff)
  then have "recurse f sm = None" using Suc.IH f by (simp add: recurse_def)
  then show ?case using unfold sb mk by simp
qed

lemma drifting_first_call:
  "play_env n drifting_sim no_render_args level True drifted_state = None"
  by (rule drifting_never_returns) (simp_all add: drifted_state_def c0_def)

subsection \<open>The main block\<close>

lemmas main_defs =
  main_def load_config_def edit_config_def has_pygame_def SAVE_NAME_def
  corridor_world_def no_directory_world_def base_only_config_def

lemma main_ImportError:
  "\<not> has_pygame w \<Longrightarrow> \<not> no_render a \<Longrightarrow> main n w a = Some ([], Raised ImportError)"
  by (simp add: main_def load_config_def)

lemma main_raises:
  assumes "main n w a = Some (evs, Raised e)"
  shows "(e = ImportError \<and> \<not> has_pygame w \<and> \<not> no_render a \<and> evs = [])
       \<or> (e = ValueError \<and> evs = [ConfigLoaded])
       \<or> ((e = ZeroDivisionError \<or> e = TypeError \<or> e = LoadError)
           \<and> evs = [ConfigLoaded, EnvCreated])
       \<or> (e = FileNotFoundError \<and> EnvCreated \<in> set evs)"
proof (cases "load_config w a")
  case (Inl e')
  then show ?thesis using assms by (auto simp: main_def load_config_def split: if_splits)
next
  case (Inr config0)
  show ?thesis
  proof (cases "edit_config a config0")
    case (Inl e')
    then have "e' = ValueError"
      by (auto simp: edit_config_def Let_def split: if_splits option.splits)
    then show ?thesis using assms Inr Inl by (simp add: main_def)
  next
    case config: (Inr config)
    let ?st0 = "\<lparr>robot = reset_robot w config,
                  visit_pos_rot = [(vec2list (base_pos (reset_robot w config)), base_rot (reset_robot w config))],
                  integrate_calls = []\<rparr>"
    show ?thesis
    proof (cases "play_env n (make_env w config) a 0 True ?st0")
      case None
      then show ?thesis using assms Inr config by (simp add: main_def Let_def)
    next
      case (Some r)
      show ?thesis
      proof (cases r)
        case (Inl e')
        then have "e' = ZeroDivisionError \<or> e' = TypeError \<or> e' = FileNotFoundError
                   \<or> e' = LoadError"
          using play_env_errors Some by blast
        then show ?thesis using assms Inr config Some Inl by (auto simp: main_def Let_def)
      next
        case r: (Inr vs)
        then show ?thesis using assms Inr config Some
          by (cases vs) (auto simp: main_def Let_def split: if_splits)
      qed
    qed
  qed
qed

lemma main_finished:
  assumes "main n w a = Some (evs, Finished)"
  shows "\<exists>total_point visited_list points.
           evs = [ConfigLoaded, EnvCreated,
                  Written (PickleFile ''/Users/jimmytyyang/Documents/spot_final_visit_points.pkl''
                             (elapsed w) total_point visited_list),
                  Written (PngFile ''/Users/jimmytyyang/Documents/spot_final_area.png'' points),
                  SetTrace]"
  using assms
  by (auto simp: main_def Let_def SAVE_NAME_def
      split: sum.splits option.splits prod.splits if_splits)

lemma corridor_main:
  "main (Suc (Suc (Suc (Suc 0)))) corridor_world no_render_args
   = Some ([ConfigLoaded, EnvCreated,
            Written (PickleFile ''/Users/jimmytyyang/Documents/spot_final_visit_points.pkl'' 7
                       (PyInt 3) [((0, 0, 0), 0), ((1, 0, 0), 0), ((2, 0, 0), 0), ((3, 0, 0), 0)]),
            Written (PngFile ''/Users/jimmytyyang/Documents/spot_final_area.png''
                       [(0, 0), (1, 0), (2, 0), (3, 0)]),
            SetTrace], Finished)"
  by (simp add: main_defs eval_defs diff_pos_threshold distance_angle_threshold_self)

lemma recording_main:
  "main (Suc (Suc (Suc (Suc 0)))) corridor_world recording_args
   = Some ([ConfigLoaded, EnvCreated,
            Written (PickleFile ''/Users/jimmytyyang/Documents/spot_final_visit_points.pkl'' 7
                       (PyInt 3) [((0, 0, 0), 0), ((1, 0, 0), 0), ((2, 0, 0), 0), ((3, 0, 0), 0)]),
            Written (PngFile ''/Users/jimmytyyang/Documents/spot_final_area.png''
                       [(0, 0), (1, 0), (2, 0), (3, 0)]),
            SetTrace], Finished)"
  by (simp add: main_defs eval_defs diff_pos_threshold distance_angle_threshold_self)

subsection \<open>An exploring call, step by step\<close>

lemma move_base_eq:
  "ctrl_freq s \<noteq> 0 \<Longrightarrow>
   move_base s bp br act st =
     Inr (st\<lparr>robot :=
              \<lparr>base_pos =
                 set_c1 (base_pos (integrate_transform s (1 / ctrl_freq s) (of_int (fst act * 10))
                                     (of_int (snd act * 50)) \<lparr>base_pos = bp, base_rot = br\<rparr>))
                   (c1 bp),
               base_rot =
                 base_rot (integrate_transform s (1 / ctrl_freq s) (of_int (fst act * 10))
                             (of_int (snd act * 50)) \<lparr>base_pos = bp, base_rot = br\<rparr>)\<rparr>,
            integrate_calls :=
              integrate_calls st @ [(fst act * 10, snd act * 50, \<lparr>base_pos = bp, base_rot = br\<rparr>)]\<rparr>)"
  by (simp add: move_base_def Let_def)

lemma play_env_explore_unfold:
  assumes "use_arm_actions s a = Inr loaded" "\<not> recording_full a"
    "is_navigable s (base_pos (robot st))" "\<not> contact_test s (robot st)"
  shows "play_env (Suc n) s a level True st =
         for_base_action (play_env n s a (level + 1)) s (base_pos (robot st)) (base_rot (robot st))
           [(0, 1), (1, 0)] 1 st"
  using assms by (simp add: Let_def render_limit_never)

lemma play_env_stalled:
  assumes "use_arm_actions s a = Inr loaded" "\<not> recording_full a"
    "is_navigable s (base_pos (robot st))" "\<not> contact_test s (robot st)" "ctrl_freq s = 0"
  shows "play_env (Suc n) s a level True st = Some (Inl ZeroDivisionError)"
  using assms by (simp add: Let_def render_limit_never move_base_def)

text \<open>What an exploring call does, whatever its recursive calls do.\<close>

lemma play_env_explore_steps:
  assumes h: "use_arm_actions s a = Inr loaded" "\<not> recording_full a"
    "is_navigable s (base_pos (robot st))" "\<not> contact_test s (robot st)"
    and nz: "ctrl_freq s \<noteq> 0"
  shows "(\<exists>st1 f1 st2.
           move_base s (base_pos (robot st)) (base_rot (robot st)) (0, 1) st = Inr st1
         \<and> robot st1 =
             \<lparr>base_pos =
                  set_c1 (base_pos (integrate_transform s (1 / ctrl_freq s) (of_int (0 * 10))
                                      (of_int (1 * 50)) (robot st)))
                    (c1 (base_pos (robot st))),
                base_rot =
                  base_rot (integrate_transform s (1 / ctrl_freq s) (of_int (0 * 10))
                              (of_int (1 * 50)) (robot st))\<rparr>
         \<and> integrate_calls st1 = integrate_calls st @ [(0 * 10, 1 * 50, robot st)]
         \<and> mark_visited st1 = (f1, st2)
         \<and> (case play_env n s a (level + 1) f1 st2 of
              None \<Rightarrow> play_env (Suc n) s a level True st = None
            | Some (Inl e) \<Rightarrow> play_env (Suc n) s a level True st = Some (Inl e)
            | Some (Inr (PyNone, st3)) \<Rightarrow> play_env (Suc n) s a level True st = Some (Inl TypeError)
            | Some (Inr (PyInt k1, st3)) \<Rightarrow>
                (\<exists>st4 f2 st5.
                    move_base s (base_pos (robot st)) (base_rot (robot st)) (1, 0) st3 = Inr st4
                  \<and> robot st4 =
             \<lparr>base_pos =
                  set_c1 (base_pos (integrate_transform s (1 / ctrl_freq s) (of_int (1 * 10))
                                      (of_int (0 * 50)) (robot st)))
                    (c1 (base_pos (robot st))),
                base_rot =
                  base_rot (integrate_transform s (1 / ctrl_freq s) (of_int (1 * 10))
                              (of_int (0 * 50)) (robot st))\<rparr>
                  \<and> integrate_calls st4 = integrate_calls st3 @ [(1 * 10, 0 * 50, robot st)]
                  \<and> mark_visited st4 = (f2, st5)
                  \<and> (case play_env n s a (level + 1) f2 st5 of
                       None \<Rightarrow> play_env (Suc n) s a level True st = None
                     | Some (Inl e) \<Rightarrow> play_env (Suc n) s a level True st = Some (Inl e)
                     | Some (Inr (PyNone, st6)) \<Rightarrow> play_env (Suc n) s a level True st = Some (Inl TypeError)
                     | Some (Inr (PyInt k2, st6)) \<Rightarrow>
                         play_env (Suc n) s a level True st = Some (Inr (PyInt (1 + k1 + k2), st6))))))"
proof -
  let ?bp = "base_pos (robot st)" and ?br = "base_rot (robot st)"
  define recurse where "recurse = play_env n s a (level + 1)"
  have u: "play_env (Suc n) s a level True st = for_base_action recurse s ?bp ?br [(0, 1), (1, 0)] 1 st"
    using play_env_explore_unfold[OF h] by (simp add: recurse_def)
  obtain st1 where st1: "move_base s ?bp ?br (0, 1) st = Inr st1"
    using move_base_defined[OF nz] by blast
  obtain f1 st2 where mk1: "mark_visited st1 = (f1, st2)" by (rule mark_visited_cases)
  have r1: "robot st1 =
             \<lparr>base_pos =
                  set_c1 (base_pos (integrate_transform s (1 / ctrl_freq s) (of_int (0 * 10))
                                      (of_int (1 * 50)) (robot st)))
                    (c1 (base_pos (robot st))),
                base_rot =
                  base_rot (integrate_transform s (1 / ctrl_freq s) (of_int (0 * 10))
                              (of_int (1 * 50)) (robot st))\<rparr>"
    using st1 move_base_eq[OF nz, of ?bp ?br "(0, 1)" st] by (auto simp: robot_eta)
  have i1: "integrate_calls st1 = integrate_calls st @ [(0 * 10, 1 * 50, robot st)]"
    using move_base_Inr(4)[OF st1] by (simp add: robot_eta)
  have second: "\<exists>st4 f2 st5.
        move_base s ?bp ?br (1, 0) st3 = Inr st4
      \<and> robot st4 =
             \<lparr>base_pos =
                  set_c1 (base_pos (integrate_transform s (1 / ctrl_freq s) (of_int (1 * 10))
                                      (of_int (0 * 50)) (robot st)))
                    (c1 (base_pos (robot st))),
                base_rot =
                  base_rot (integrate_transform s (1 / ctrl_freq s) (of_int (1 * 10))
                              (of_int (0 * 50)) (robot st))\<rparr>
      \<and> integrate_calls st4 = integrate_calls st3 @ [(1 * 10, 0 * 50, robot st)]
      \<and> mark_visited st4 = (f2, st5)
      \<and> (case recurse f2 st5 of
           None \<Rightarrow> play_env (Suc n) s a level True st = None
         | Some (Inl e) \<Rightarrow> play_env (Suc n) s a level True st = Some (Inl e)
         | Some (Inr (PyNone, st6)) \<Rightarrow> play_env (Suc n) s a level True st = Some (Inl TypeError)
         | Some (Inr (PyInt k2, st6)) \<Rightarrow> play_env (Suc n) s a level True st = Some (Inr (PyInt (1 + k1 + k2), st6)))"
    if first: "recurse f1 st2 = Some (Inr (PyInt k1, st3))" for k1 st3
  proof -
    obtain st4 where st4: "move_base s ?bp ?br (1, 0) st3 = Inr st4"
      using move_base_defined[OF nz] by blast
    obtain f2 st5 where mk2: "mark_visited st4 = (f2, st5)" by (rule mark_visited_cases)
    have r2: "robot st4 =
             \<lparr>base_pos =
                  set_c1 (base_pos (integrate_transform s (1 / ctrl_freq s) (of_int (1 * 10))
                                      (of_int (0 * 50)) (robot st)))
                    (c1 (base_pos (robot st))),
                base_rot =
                  base_rot (integrate_transform s (1 / ctrl_freq s) (of_int (1 * 10))
                              (of_int (0 * 50)) (robot st))\<rparr>"
      using st4 move_base_eq[OF nz, of ?bp ?br "(1, 0)" st3] by (auto simp: robot_eta)
    have i2: "integrate_calls st4 = integrate_calls st3 @ [(1 * 10, 0 * 50, robot st)]"
      using move_base_Inr(4)[OF st4] by (simp add: robot_eta)
    have "case recurse f2 st5 of
           None \<Rightarrow> play_env (Suc n) s a level True st = None
         | Some (Inl e) \<Rightarrow> play_env (Suc n) s a level True st = Some (Inl e)
         | Some (Inr (PyNone, st6)) \<Rightarrow> play_env (Suc n) s a level True st = Some (Inl TypeError)
         | Some (Inr (PyInt k2, st6)) \<Rightarrow> play_env (Suc n) s a level True st = Some (Inr (PyInt (1 + k1 + k2), st6))"
      using u st1 mk1 first st4 mk2
      by (auto split: option.splits sum.splits prod.splits pyval.splits)
    then show ?thesis using st4 r2 i2 mk2 by blast
  qed
  have "case recurse f1 st2 of
          None \<Rightarrow> play_env (Suc n) s a level True st = None
        | Some (Inl e) \<Rightarrow> play_env (Suc n) s a level True st = Some (Inl e)
        | Some (Inr (PyNone, st3)) \<Rightarrow> play_env (Suc n) s a level True st = Some (Inl TypeError)
        | Some (Inr (PyInt k1, st3)) \<Rightarrow>
            (\<exists>st4 f2 st5.
                move_base s ?bp ?br (1, 0) st3 = Inr st4
              \<and> robot st4 =
             \<lparr>base_pos =
                  set_c1 (base_pos (integrate_transform s (1 / ctrl_freq s) (of_int (1 * 10))
                                      (of_int (0 * 50)) (robot st)))
                    (c1 (base_pos (robot st))),
                base_rot =
                  base_rot (integrate_transform s (1 / ctrl_freq s) (of_int (1 * 10))
                              (of_int (0 * 50)) (robot st))\<rparr>
              \<and> integrate_calls st4 = integrate_calls st3 @ [(1 * 10, 0 * 50, robot st)]
              \<and> mark_visited st4 = (f2, st5)
              \<and> (case recurse f2 st5 of
                   None \<Rightarrow> play_env (Suc n) s a level True st = None
                 | Some (Inl e) \<Rightarrow> play_env (Suc n) s a level True st = Some (Inl e)
                 | Some (Inr (PyNone, st6)) \<Rightarrow> play_env (Suc n) s a level True st = Some (Inl TypeError)
                 | Some (Inr (PyInt k2, st6)) \<Rightarrow> play_env (Suc n) s a level True st = Some (Inr (PyInt (1 + k1 + k2), st6))))"
  proof (cases "recurse f1 st2")
    case None
    then show ?thesis using u st1 mk1 by simp
  next
    case (Some r)
    show ?thesis
    proof (cases r)
      case (Inl e)
      then show ?thesis using u st1 mk1 Some by simp
    next
      case (Inr vs)
      obtain v st3 where vs: "vs = (v, st3)" by (cases vs) auto
      show ?thesis
      proof (cases v)
        case PyNone
        then show ?thesis using u st1 mk1 Some Inr vs by simp
      next
        case (PyInt k1)
        then have "recurse f1 st2 = Some (Inr (PyInt k1, st3))" using Some Inr vs by simp
        from second[OF this] show ?thesis using Some Inr vs PyInt by simp
      qed
    qed
  qed
  then show ?thesis
    unfolding recurse_def using st1 r1 i1 mk1 by blast
qed

text \<open>The same without the poses and the integrations.\<close>

lemma play_env_explore_results:
  assumes h: "use_arm_actions s a = Inr loaded" "\<not> recording_full a"
    "is_navigable s (base_pos (robot st))" "\<not> contact_test s (robot st)"
    and nz: "ctrl_freq s \<noteq> 0"
  shows "(\<exists>st1 f1 st2.
                move_base s (base_pos (robot st)) (base_rot (robot st)) (0, 1) st = Inr st1
              \<and> mark_visited st1 = (f1, st2)
              \<and> (case play_env n s a (level + 1) f1 st2 of
                   None \<Rightarrow> play_env (Suc n) s a level True st = None
                 | Some (Inl e) \<Rightarrow> play_env (Suc n) s a level True st = Some (Inl e)
                 | Some (Inr (PyNone, st3)) \<Rightarrow> play_env (Suc n) s a level True st = Some (Inl TypeError)
                 | Some (Inr (PyInt k1, st3)) \<Rightarrow>
                     (\<exists>st4 f2 st5.
                         move_base s (base_pos (robot st)) (base_rot (robot st)) (1, 0) st3 = Inr st4
                       \<and> mark_visited st4 = (f2, st5)
                       \<and> (case play_env n s a (level + 1) f2 st5 of
                            None \<Rightarrow> play_env (Suc n) s a level True st = None
                          | Some (Inl e) \<Rightarrow> play_env (Suc n) s a level True st = Some (Inl e)
                          | Some (Inr (PyNone, st6)) \<Rightarrow> play_env (Suc n) s a level True st = Some (Inl TypeError)
                          | Some (Inr (PyInt k2, st6)) \<Rightarrow>
                              play_env (Suc n) s a level True st = Some (Inr (PyInt (1 + k1 + k2), st6))))))"
proof -
  let ?bp = "base_pos (robot st)" and ?br = "base_rot (robot st)"
  define recurse where "recurse = play_env n s a (level + 1)"
  have u: "play_env (Suc n) s a level True st = for_base_action recurse s ?bp ?br [(0, 1), (1, 0)] 1 st"
    using play_env_explore_unfold[OF h] by (simp add: recurse_def)
  obtain st1 where st1: "move_base s ?bp ?br (0, 1) st = Inr st1"
    using move_base_defined[OF nz] by blast
  obtain f1 st2 where mk1: "mark_visited st1 = (f1, st2)" by (rule mark_visited_cases)
  have second: "\<exists>st4 f2 st5.
        move_base s ?bp ?br (1, 0) st3 = Inr st4
      \<and> mark_visited st4 = (f2, st5)
      \<and> (case recurse f2 st5 of
           None \<Rightarrow> play_env (Suc n) s a level True st = None
         | Some (Inl e) \<Rightarrow> play_env (Suc n) s a level True st = Some (Inl e)
         | Some (Inr (PyNone, st6)) \<Rightarrow> play_env (Suc n) s a level True st = Some (Inl TypeError)
         | Some (Inr (PyInt k2, st6)) \<Rightarrow> play_env (Suc n) s a level True st = Some (Inr (PyInt (1 + k1 + k2), st6)))"
    if first: "recurse f1 st2 = Some (Inr (PyInt k1, st3))" for k1 st3
  proof -
    obtain st4 where st4: "move_base s ?bp ?br (1, 0) st3 = Inr st4"
      using move_base_defined[OF nz] by blast
    obtain f2 st5 where mk2: "mark_visited st4 = (f2, st5)" by (rule mark_visited_cases)
    have "case recurse f2 st5 of
           None \<Rightarrow> play_env (Suc n) s a level True st = None
         | Some (Inl e) \<Rightarrow> play_env (Suc n) s a level True st = Some (Inl e)
         | Some (Inr (PyNone, st6)) \<Rightarrow> play_env (Suc n) s a level True st = Some (Inl TypeError)
         | Some (Inr (PyInt k2, st6)) \<Rightarrow> play_env (Suc n) s a level True st = Some (Inr (PyInt (1 + k1 + k2), st6))"
      using u st1 mk1 first st4 mk2
      by (auto split: option.splits sum.splits prod.splits pyval.splits)
    then show ?thesis using st4 mk2 by blast
  qed
  have "case recurse f1 st2 of
          None \<Rightarrow> play_env (Suc n) s a level True st = None
        | Some (Inl e) \<Rightarrow> play_env (Suc n) s a level True st = Some (Inl e)
        | Some (Inr (PyNone, st3)) \<Rightarrow> play_env (Suc n) s a level True st = Some (Inl TypeError)
        | Some (Inr (PyInt k1, st3)) \<Rightarrow>
            (\<exists>st4 f2 st5.
                move_base s ?bp ?br (1, 0) st3 = Inr st4
              \<and> mark_visited st4 = (f2, st5)
              \<and> (case recurse f2 st5 of
                   None \<Rightarrow> play_env (Suc n) s a level True st = None
                 | Some (Inl e) \<Rightarrow> play_env (Suc n) s a level True st = Some (Inl e)
                 | Some (Inr (PyNone, st6)) \<Rightarrow> play_env (Suc n) s a level True st = Some (Inl TypeError)
                 | Some (Inr (PyInt k2, st6)) \<Rightarrow> play_env (Suc n) s a level True st = Some (Inr (PyInt (1 + k1 + k2), st6))))"
  proof (cases "recurse f1 st2")
    case None
    then show ?thesis using u st1 mk1 by simp
  next
    case (Some r)
    show ?thesis
    proof (cases r)
      case (Inl e)
      then show ?thesis using u st1 mk1 Some by simp
    next
      case (Inr vs)
      obtain v st3 where vs: "vs = (v, st3)" by (cases vs) auto
      show ?thesis
      proof (cases v)
        case PyNone
        then show ?thesis using u st1 mk1 Some Inr vs by simp
      next
        case (PyInt k1)
        then have "recurse f1 st2 = Some (Inr (PyInt k1, st3))" using Some Inr vs by simp
        from second[OF this] show ?thesis using Some Inr vs PyInt by simp
      qed
    qed
  qed
  then show ?thesis
    unfolding recurse_def using st1 mk1 by blast
qed

subsection \<open>The count of a call\<close>

lemma added_distinct_nth:
  "added_distinct V new \<Longrightarrow> k < length new \<Longrightarrow>
   list_all (\<lambda>q. \<not> within_thresholds q (new ! k)) (V @ take k new)"
proof (induction new arbitrary: V k)
  case Nil
  then show ?case by simp
next
  case (Cons p ps)
  show ?case
  proof (cases k)
    case 0
    then show ?thesis using Cons.prems by (cases p) (simp add: flag_distinct_of_iff)
  next
    case (Suc k')
    then have "list_all (\<lambda>q. \<not> within_thresholds q (ps ! k')) ((V @ [p]) @ take k' ps)"
      using Cons.IH[of "V @ [p]" k'] Cons.prems by simp
    then show ?thesis using Suc by simp
  qed
qed

lemma deduplicated_pairs:
  assumes "deduplicated V" "i < length V" "j < length V" "i \<noteq> j"
  shows "\<not> within_thresholds (V ! i) (V ! j)"
proof (cases "i < j")
  case True
  then show ?thesis using assms deduplicated_nth[of V] by blast
next
  case False
  then have "j < i" using assms(4) by simp
  then have "\<not> within_thresholds (V ! j) (V ! i)" using assms deduplicated_nth[of V] by blast
  then show ?thesis by (simp add: within_thresholds_sym[of "V ! i"])
qed

lemma deduplicated_distinct: "deduplicated V \<Longrightarrow> distinct V"
proof (induction V)
  case Nil
  show ?case by simp
next
  case (Cons p ps)
  have "p \<notin> set ps"
  proof
    assume "p \<in> set ps"
    then have "\<not> within_thresholds p p" using Cons.prems by (simp add: list_all_iff)
    then show False by (simp add: within_thresholds_refl)
  qed
  then show ?case using Cons by simp
qed

text \<open>
  Claim C1, as the code has it. Every call first loads the file of \<open>--load-actions\<close>, when one
  is given, and then tests the recording guard. On every call that gets past both (the file
  loads, and \<open>--save-actions\<close> does not come with a negative \<open>--save-actions-count\<close>, which
  makes every call return \<open>None\<close> before any check), \<open>play_env\<close> returns 0 and leaves the
  state alone when the base position is not navigable, the contact test reports contact or
  \<open>flag_distinct\<close> is false. Otherwise, with a control frequency other than 0, it makes a
  recursive call for the base action \<open>[0, 1]\<close> and, when that returns a number, one for
  \<open>[1, 0]\<close>, and when that returns a number too it returns 1 plus the sum of the two; when
  a recursive call raises or does not return, so does the call. So a call that returns has
  returned 1 plus the sum of its two recursive results, and a top-level call, entered as the
  main block does with the start pose as the only recorded pose, returns the number of
  recorded poses that are navigable and free of contact; the recorded poses are pairwise
  distinct under the thresholds.
\<close>

theorem play_env_counts_passable_poses:
  assumes "use_arm_actions s a = Inr loaded" and "\<not> recording_full a"
  shows
    "(\<not> is_navigable s (base_pos (robot st)) \<or> contact_test s (robot st) \<or> \<not> flag_distinct
        \<longrightarrow> play_env (Suc n) s a level flag_distinct st = Some (Inr (PyInt 0, st)))
     \<and> (is_navigable s (base_pos (robot st)) \<and> \<not> contact_test s (robot st) \<and> flag_distinct
          \<and> ctrl_freq s \<noteq> 0
        \<longrightarrow> (\<exists>st1 f1 st2.
                move_base s (base_pos (robot st)) (base_rot (robot st)) (0, 1) st = Inr st1
              \<and> mark_visited st1 = (f1, st2)
              \<and> (case play_env n s a (level + 1) f1 st2 of
                   None \<Rightarrow> play_env (Suc n) s a level flag_distinct st = None
                 | Some (Inl e) \<Rightarrow> play_env (Suc n) s a level flag_distinct st = Some (Inl e)
                 | Some (Inr (PyNone, st3)) \<Rightarrow> play_env (Suc n) s a level flag_distinct st = Some (Inl TypeError)
                 | Some (Inr (PyInt k1, st3)) \<Rightarrow>
                     (\<exists>st4 f2 st5.
                         move_base s (base_pos (robot st)) (base_rot (robot st)) (1, 0) st3 = Inr st4
                       \<and> mark_visited st4 = (f2, st5)
                       \<and> (case play_env n s a (level + 1) f2 st5 of
                            None \<Rightarrow> play_env (Suc n) s a level flag_distinct st = None
                          | Some (Inl e) \<Rightarrow> play_env (Suc n) s a level flag_distinct st = Some (Inl e)
                          | Some (Inr (PyNone, st6)) \<Rightarrow> play_env (Suc n) s a level flag_distinct st = Some (Inl TypeError)
                          | Some (Inr (PyInt k2, st6)) \<Rightarrow>
                              play_env (Suc n) s a level flag_distinct st = Some (Inr (PyInt (1 + k1 + k2), st6)))))))
     \<and> (is_navigable s (base_pos (robot st)) \<and> \<not> contact_test s (robot st) \<and> flag_distinct
        \<longrightarrow> (\<forall>v st'. play_env (Suc n) s a level flag_distinct st = Some (Inr (v, st'))
              \<longrightarrow> (\<exists>st1 f1 st2 k1 st3 st4 f2 st5 k2.
                     move_base s (base_pos (robot st)) (base_rot (robot st)) (0, 1) st = Inr st1
                   \<and> mark_visited st1 = (f1, st2)
                   \<and> play_env n s a (level + 1) f1 st2 = Some (Inr (PyInt k1, st3))
                   \<and> move_base s (base_pos (robot st)) (base_rot (robot st)) (1, 0) st3 = Inr st4
                   \<and> mark_visited st4 = (f2, st5)
                   \<and> play_env n s a (level + 1) f2 st5 = Some (Inr (PyInt k2, st'))
                   \<and> v = PyInt (1 + k1 + k2))))
     \<and> (\<forall>m v st'. visit_pos_rot st = [pose_of (robot st)]
            \<and> play_env m s a level True st = Some (Inr (v, st'))
          \<longrightarrow> deduplicated (visit_pos_rot st')
              \<and> v = PyInt (int (length (filter (passable s) (visit_pos_rot st')))))"
proof (intro conjI impI allI)
  assume "\<not> is_navigable s (base_pos (robot st)) \<or> contact_test s (robot st) \<or> \<not> flag_distinct"
  then show "play_env (Suc n) s a level flag_distinct st = Some (Inr (PyInt 0, st))"
    using assms by (auto simp: Let_def render_limit_never)
next
  assume ok: "is_navigable s (base_pos (robot st)) \<and> \<not> contact_test s (robot st) \<and> flag_distinct
          \<and> ctrl_freq s \<noteq> 0"
  then have f: "flag_distinct = True" by simp
  show "(\<exists>st1 f1 st2.
                move_base s (base_pos (robot st)) (base_rot (robot st)) (0, 1) st = Inr st1
              \<and> mark_visited st1 = (f1, st2)
              \<and> (case play_env n s a (level + 1) f1 st2 of
                   None \<Rightarrow> play_env (Suc n) s a level flag_distinct st = None
                 | Some (Inl e) \<Rightarrow> play_env (Suc n) s a level flag_distinct st = Some (Inl e)
                 | Some (Inr (PyNone, st3)) \<Rightarrow> play_env (Suc n) s a level flag_distinct st = Some (Inl TypeError)
                 | Some (Inr (PyInt k1, st3)) \<Rightarrow>
                     (\<exists>st4 f2 st5.
                         move_base s (base_pos (robot st)) (base_rot (robot st)) (1, 0) st3 = Inr st4
                       \<and> mark_visited st4 = (f2, st5)
                       \<and> (case play_env n s a (level + 1) f2 st5 of
                            None \<Rightarrow> play_env (Suc n) s a level flag_distinct st = None
                          | Some (Inl e) \<Rightarrow> play_env (Suc n) s a level flag_distinct st = Some (Inl e)
                          | Some (Inr (PyNone, st6)) \<Rightarrow> play_env (Suc n) s a level flag_distinct st = Some (Inl TypeError)
                          | Some (Inr (PyInt k2, st6)) \<Rightarrow>
                              play_env (Suc n) s a level flag_distinct st = Some (Inr (PyInt (1 + k1 + k2), st6))))))"
    unfolding f using play_env_explore_results[OF assms, of st n level] ok by blast
next
  fix v st'
  assume ok: "is_navigable s (base_pos (robot st)) \<and> \<not> contact_test s (robot st) \<and> flag_distinct"
    and run: "play_env (Suc n) s a level flag_distinct st = Some (Inr (v, st'))"
  show "\<exists>st1 f1 st2 k1 st3 st4 f2 st5 k2.
          move_base s (base_pos (robot st)) (base_rot (robot st)) (0, 1) st = Inr st1
        \<and> mark_visited st1 = (f1, st2)
        \<and> play_env n s a (level + 1) f1 st2 = Some (Inr (PyInt k1, st3))
        \<and> move_base s (base_pos (robot st)) (base_rot (robot st)) (1, 0) st3 = Inr st4
        \<and> mark_visited st4 = (f2, st5)
        \<and> play_env n s a (level + 1) f2 st5 = Some (Inr (PyInt k2, st'))
        \<and> v = PyInt (1 + k1 + k2)"
    using play_env_return_cases[OF run] assms(2) ok by (simp add: passable_pose_of)
next
  fix m v st'
  assume h: "visit_pos_rot st = [pose_of (robot st)]
             \<and> play_env m s a level True st = Some (Inr (v, st'))"
  then show "deduplicated (visit_pos_rot st')"
    using play_env_keeps_deduplicated(1)[of m s a level True st v st'] by simp
  show "v = PyInt (int (length (filter (passable s) (visit_pos_rot st'))))"
    using play_env_counts[of m s a level True st v st'] h assms(2) by auto
qed

theorem play_env_counts_passable_poses_witness:
  "use_arm_actions corridor_sim no_render_args = Inr None
   \<and> use_arm_actions walled_sim no_render_args = Inr None
   \<and> \<not> recording_full no_render_args
   \<and> play_env (Suc 0) walled_sim no_render_args 0 True start_state = Some (Inr (PyInt 0, start_state))
   \<and> play_env (Suc 0) corridor_sim no_render_args 0 False start_state = Some (Inr (PyInt 0, start_state))
   \<and> visit_pos_rot start_state = [pose_of (robot start_state)]
   \<and> play_env (Suc (Suc (Suc (Suc 0)))) corridor_sim no_render_args 0 True start_state
       = Some (Inr (PyInt 3, corridor_end))
   \<and> (\<exists>f1 st2 k1 st3 f2 st5 k2.
         play_env (Suc (Suc (Suc 0))) corridor_sim no_render_args (0 + 1) f1 st2
           = Some (Inr (PyInt k1, st3))
       \<and> play_env (Suc (Suc (Suc 0))) corridor_sim no_render_args (0 + 1) f2 st5
           = Some (Inr (PyInt k2, corridor_end))
       \<and> PyInt 3 = PyInt (1 + k1 + k2))
   \<and> deduplicated (visit_pos_rot corridor_end)
   \<and> PyInt 3 = PyInt (int (length (filter (passable corridor_sim) (visit_pos_rot corridor_end))))
   \<and> ctrl_freq corridor_sim \<noteq> 0
   \<and> (\<exists>st1 f1 st2.
         move_base corridor_sim (base_pos (robot start_state)) (base_rot (robot start_state)) (0, 1)
           start_state = Inr st1
       \<and> mark_visited st1 = (f1, st2)
       \<and> play_env (Suc (Suc (Suc 0))) corridor_sim no_render_args (0 + 1) f1 st2 \<noteq> None)"
proof -
  have lc: "use_arm_actions corridor_sim no_render_args = Inr None"
    by (simp add: use_arm_actions_def no_render_args_def)
  have lw: "use_arm_actions walled_sim no_render_args = Inr None"
    by (simp add: use_arm_actions_def no_render_args_def)
  have g: "\<not> recording_full no_render_args"
    by (simp add: recording_full_def no_render_args_def)
  have s: "visit_pos_rot start_state = [pose_of (robot start_state)]"
    by (simp add: start_state_def origin_def pose_of_def vec2list_id)
  have w: "\<not> is_navigable walled_sim (base_pos (robot start_state))
           \<or> contact_test walled_sim (robot start_state) \<or> \<not> True"
    by (simp add: walled_sim_def corridor_sim_def)
  have ok: "is_navigable corridor_sim (base_pos (robot start_state))
            \<and> \<not> contact_test corridor_sim (robot start_state) \<and> True"
    by (simp add: corridor_sim_def start_state_def origin_def c0_def)
  have "play_env (Suc 0) walled_sim no_render_args 0 True start_state
        = Some (Inr (PyInt 0, start_state))"
    using play_env_counts_passable_poses[OF lw g, of start_state True 0 0] w by blast
  moreover have "play_env (Suc 0) corridor_sim no_render_args 0 False start_state
        = Some (Inr (PyInt 0, start_state))"
    using play_env_counts_passable_poses[OF lc g, of start_state False 0 0] by blast
  moreover have "\<exists>f1 st2 k1 st3 f2 st5 k2.
         play_env (Suc (Suc (Suc 0))) corridor_sim no_render_args (0 + 1) f1 st2
           = Some (Inr (PyInt k1, st3))
       \<and> play_env (Suc (Suc (Suc 0))) corridor_sim no_render_args (0 + 1) f2 st5
           = Some (Inr (PyInt k2, corridor_end))
       \<and> PyInt 3 = PyInt (1 + k1 + k2)"
    using play_env_counts_passable_poses[OF lc g, of start_state True "Suc (Suc (Suc 0))" 0]
      ok corridor_run
    by blast
  moreover have "deduplicated (visit_pos_rot corridor_end)
        \<and> PyInt 3 = PyInt (int (length (filter (passable corridor_sim) (visit_pos_rot corridor_end))))"
    using play_env_counts_passable_poses[OF lc g, of start_state True 0 0] s corridor_run
    by blast
  moreover have nz: "ctrl_freq corridor_sim \<noteq> 0" by (simp add: corridor_sim_def)
  moreover have "\<exists>st1 f1 st2.
         move_base corridor_sim (base_pos (robot start_state)) (base_rot (robot start_state)) (0, 1)
           start_state = Inr st1
       \<and> mark_visited st1 = (f1, st2)
       \<and> play_env (Suc (Suc (Suc 0))) corridor_sim no_render_args (0 + 1) f1 st2 \<noteq> None"
  proof -
    define recurse where
      "recurse = play_env (Suc (Suc (Suc 0))) corridor_sim no_render_args (0 + 1)"
    define result where
      "result = play_env (Suc (Suc (Suc (Suc 0)))) corridor_sim no_render_args 0 True start_state"
    have res: "result \<noteq> None" using corridor_run by (simp add: result_def)
    obtain st1 f1 st2 where a:
      "move_base corridor_sim (base_pos (robot start_state)) (base_rot (robot start_state)) (0, 1)
         start_state = Inr st1"
      "mark_visited st1 = (f1, st2)"
      and c: "case recurse f1 st2 of
                None \<Rightarrow> result = None
              | Some r \<Rightarrow> True"
      using play_env_counts_passable_poses[OF lc g, of start_state True "Suc (Suc (Suc 0))" 0]
        ok nz
      unfolding recurse_def result_def
      by (auto split: option.splits)
    have "recurse f1 st2 \<noteq> None" using c res by (auto split: option.splits)
    then show ?thesis using a unfolding recurse_def by blast
  qed
  ultimately show ?thesis using lc lw g s corridor_run by blast
qed

theorem play_env_recording_guard_counterexample:
  "\<not> is_navigable walled_sim (base_pos (robot start_state))
   \<and> (\<forall>n. play_env (Suc n) walled_sim negative_count_args 0 True start_state
            = Some (Inr (PyNone, start_state)))
   \<and> PyNone \<noteq> PyInt 0
   \<and> (\<forall>n. play_env (Suc n) walled_sim missing_file_args 0 True start_state
            = Some (Inl FileNotFoundError))
   \<and> play_env (Suc (Suc (Suc (Suc 0)))) corridor_sim no_render_args 0 True start_state
       = Some (Inr (PyInt 3, corridor_end))
   \<and> list_all (\<lambda>p. is_navigable corridor_sim (fst p)) (visit_pos_rot corridor_end)
   \<and> deduplicated (visit_pos_rot corridor_end)
   \<and> length (visit_pos_rot corridor_end) = 4"
proof -
  have "\<not> is_navigable walled_sim (base_pos (robot start_state))
   \<and> (\<forall>n. play_env (Suc n) walled_sim negative_count_args 0 True start_state
            = Some (Inr (PyNone, start_state)))
   \<and> PyNone \<noteq> PyInt 0
   \<and> (\<forall>n. play_env (Suc n) walled_sim missing_file_args 0 True start_state
            = Some (Inl FileNotFoundError))"
    by (simp add: walled_sim_def corridor_sim_def recording_full_def use_arm_actions_def
        negative_count_args_def missing_file_args_def no_render_args_def)
  moreover have "list_all (\<lambda>p. is_navigable corridor_sim (fst p)) (visit_pos_rot corridor_end)
   \<and> length (visit_pos_rot corridor_end) = 4"
    by (simp add: corridor_end_def corridor_sim_def c0_def)
  moreover have "deduplicated (visit_pos_rot corridor_end)"
    using play_env_keeps_deduplicated(1)[OF corridor_run] by (simp add: start_state_def)
  ultimately show ?thesis using corridor_run by blast
qed

subsection \<open>The visited list stays deduplicated\<close>

lemma deduplicated_far_apart:
  assumes "deduplicated V"
  shows "\<forall>i j. i < length V \<and> j < length V \<and> i \<noteq> j \<longrightarrow>
           diff_pos (fst (V ! i)) (fst (V ! j)) > 0.01
           \<or> distance_angle (snd (V ! i)) (snd (V ! j)) > 0.01"
proof (intro allI impI)
  fix i j assume "i < length V \<and> j < length V \<and> i \<noteq> j"
  then have "\<not> within_thresholds (V ! i) (V ! j)" using deduplicated_pairs[OF assms] by blast
  then show "diff_pos (fst (V ! i)) (fst (V ! j)) > 0.01
           \<or> distance_angle (snd (V ! i)) (snd (V ! j)) > 0.01"
    by (auto simp: within_thresholds_def has_visited_threshold_pos_def
        has_visited_threshold_rot_def not_le)
qed

lemma mark_visited_deduplicated:
  assumes "mark_visited st = (f, st2)"
  shows "f \<longleftrightarrow> (\<forall>q\<in>set (visit_pos_rot st).
                 \<not> (diff_pos (fst q) (base_pos (robot st)) \<le> 0.01
                    \<and> distance_angle (snd q) (base_rot (robot st)) \<le> 0.01))"
    and "visit_pos_rot st2 = (if f then visit_pos_rot st @ [pose_of (robot st)] else visit_pos_rot st)"
    and "deduplicated (visit_pos_rot st) \<longrightarrow> deduplicated (visit_pos_rot st2)"
proof -
  have f: "f = flag_distinct_of (visit_pos_rot st) (base_pos (robot st)) (base_rot (robot st))"
    using mark_visited_eq(3)[OF assms] .
  show "f \<longleftrightarrow> (\<forall>q\<in>set (visit_pos_rot st).
                 \<not> (diff_pos (fst q) (base_pos (robot st)) \<le> 0.01
                    \<and> distance_angle (snd q) (base_rot (robot st)) \<le> 0.01))"
    unfolding f
    by (simp add: flag_distinct_of_iff list_all_iff within_thresholds_def
        has_visited_threshold_pos_def has_visited_threshold_rot_def)
  show v: "visit_pos_rot st2 = (if f then visit_pos_rot st @ [pose_of (robot st)] else visit_pos_rot st)"
    using mark_visited_eq(4)[OF assms] .
  show "deduplicated (visit_pos_rot st) \<longrightarrow> deduplicated (visit_pos_rot st2)"
    using v f by (auto simp: deduplicated_snoc flag_distinct_of_iff pose_of_def vec2list_id)
qed

lemma main_pickled_deduplicated:
  assumes "main n w a = Some (evs, out)"
    and "Written (PickleFile path difference total_point visited_list) \<in> set evs"
  shows "deduplicated visited_list"
proof (cases "load_config w a")
  case (Inl e)
  then show ?thesis using assms by (auto simp: main_def)
next
  case (Inr config0)
  show ?thesis
  proof (cases "edit_config a config0")
    case (Inl e)
    then show ?thesis using assms Inr by (auto simp: main_def)
  next
    case config: (Inr config)
    let ?st0 = "\<lparr>robot = reset_robot w config,
                  visit_pos_rot = [(vec2list (base_pos (reset_robot w config)), base_rot (reset_robot w config))],
                  integrate_calls = []\<rparr>"
    show ?thesis
    proof (cases "play_env n (make_env w config) a 0 True ?st0")
      case None
      then show ?thesis using assms Inr config by (simp add: main_def Let_def)
    next
      case (Some r)
      show ?thesis
      proof (cases r)
        case (Inl e)
        then show ?thesis using assms Inr config Some by (auto simp: main_def Let_def)
      next
        case r: (Inr vs)
        obtain v st where vs: "vs = (v, st)" by (cases vs) auto
        have "deduplicated (visit_pos_rot st)"
          using play_env_keeps_deduplicated(1)[of n "make_env w config" a 0 True ?st0 v st]
            Some r vs by simp
        then show ?thesis
          using assms Inr config Some r vs
          by (auto simp: main_def Let_def split: if_splits)
      qed
    qed
  qed
qed

text \<open>
  Claim C2. The loop appends the new pose to \<open>visit_pos_rot\<close> exactly when no recorded pose
  lies within both position distance 0.01 and angular distance 0.01 of it, and this is the
  only change the list ever sees. So a call of \<open>play_env\<close> that returns has only appended
  poses that had no recorded pose within both thresholds when they were appended, and a
  list that is deduplicated at entry (the one-element list of the main block is) is
  deduplicated afterwards: any two of its entries differ by more than 0.01 in position
  distance or by more than 0.01 in angular distance. This holds of every list the main
  block pickles.
\<close>

theorem visit_pos_rot_deduplicated:
  "(\<forall>f st2. mark_visited st = (f, st2) \<longrightarrow>
       (f \<longleftrightarrow> (\<forall>q\<in>set (visit_pos_rot st).
                 \<not> (diff_pos (fst q) (base_pos (robot st)) \<le> 0.01
                    \<and> distance_angle (snd q) (base_rot (robot st)) \<le> 0.01)))
     \<and> visit_pos_rot st2
         = (if f then visit_pos_rot st @ [pose_of (robot st)] else visit_pos_rot st)
     \<and> (deduplicated (visit_pos_rot st) \<longrightarrow> deduplicated (visit_pos_rot st2)))
   \<and> (\<forall>v st'. play_env n s a level flag_distinct st = Some (Inr (v, st')) \<longrightarrow>
        (\<exists>new. visit_pos_rot st' = visit_pos_rot st @ new
           \<and> (\<forall>k<length new. \<forall>q\<in>set (visit_pos_rot st @ take k new).
                 \<not> (diff_pos (fst q) (fst (new ! k)) \<le> 0.01
                    \<and> distance_angle (snd q) (snd (new ! k)) \<le> 0.01))
           \<and> (deduplicated (visit_pos_rot st) \<longrightarrow>
                deduplicated (visit_pos_rot st')
                \<and> (\<forall>i j. i < length (visit_pos_rot st') \<and> j < length (visit_pos_rot st') \<and> i \<noteq> j \<longrightarrow>
                     diff_pos (fst (visit_pos_rot st' ! i)) (fst (visit_pos_rot st' ! j)) > 0.01
                     \<or> distance_angle (snd (visit_pos_rot st' ! i)) (snd (visit_pos_rot st' ! j)) > 0.01))))
   \<and> (\<forall>w evs out path difference total_point visited_list.
        main n w a = Some (evs, out)
        \<and> Written (PickleFile path difference total_point visited_list) \<in> set evs \<longrightarrow>
        (\<forall>i j. i < length visited_list \<and> j < length visited_list \<and> i \<noteq> j \<longrightarrow>
           diff_pos (fst (visited_list ! i)) (fst (visited_list ! j)) > 0.01
           \<or> distance_angle (snd (visited_list ! i)) (snd (visited_list ! j)) > 0.01))"
proof (intro conjI)
  show "\<forall>f st2. mark_visited st = (f, st2) \<longrightarrow>
       (f \<longleftrightarrow> (\<forall>q\<in>set (visit_pos_rot st).
                 \<not> (diff_pos (fst q) (base_pos (robot st)) \<le> 0.01
                    \<and> distance_angle (snd q) (base_rot (robot st)) \<le> 0.01)))
     \<and> visit_pos_rot st2
         = (if f then visit_pos_rot st @ [pose_of (robot st)] else visit_pos_rot st)
     \<and> (deduplicated (visit_pos_rot st) \<longrightarrow> deduplicated (visit_pos_rot st2))"
    using mark_visited_deduplicated by blast
next
  show "\<forall>v st'. play_env n s a level flag_distinct st = Some (Inr (v, st')) \<longrightarrow>
        (\<exists>new. visit_pos_rot st' = visit_pos_rot st @ new
           \<and> (\<forall>k<length new. \<forall>q\<in>set (visit_pos_rot st @ take k new).
                 \<not> (diff_pos (fst q) (fst (new ! k)) \<le> 0.01
                    \<and> distance_angle (snd q) (snd (new ! k)) \<le> 0.01))
           \<and> (deduplicated (visit_pos_rot st) \<longrightarrow>
                deduplicated (visit_pos_rot st')
                \<and> (\<forall>i j. i < length (visit_pos_rot st') \<and> j < length (visit_pos_rot st') \<and> i \<noteq> j \<longrightarrow>
                     diff_pos (fst (visit_pos_rot st' ! i)) (fst (visit_pos_rot st' ! j)) > 0.01
                     \<or> distance_angle (snd (visit_pos_rot st' ! i)) (snd (visit_pos_rot st' ! j)) > 0.01)))"
  proof (intro allI impI)
    fix v st'
    assume run: "play_env n s a level flag_distinct st = Some (Inr (v, st'))"
    obtain new where new: "visit_pos_rot st' = visit_pos_rot st @ new"
      "added_distinct (visit_pos_rot st) new"
      using play_env_visit_grows[OF run] by blast
    have only: "\<forall>k<length new. \<forall>q\<in>set (visit_pos_rot st @ take k new).
        \<not> (diff_pos (fst q) (fst (new ! k)) \<le> 0.01 \<and> distance_angle (snd q) (snd (new ! k)) \<le> 0.01)"
    proof (intro allI impI ballI)
      fix k q assume k: "k < length new" and q: "q \<in> set (visit_pos_rot st @ take k new)"
      have "\<not> within_thresholds q (new ! k)"
        using added_distinct_nth[OF new(2) k] q by (simp add: list_all_iff)
      then show "\<not> (diff_pos (fst q) (fst (new ! k)) \<le> 0.01
                  \<and> distance_angle (snd q) (snd (new ! k)) \<le> 0.01)"
        by (simp add: within_thresholds_def has_visited_threshold_pos_def
            has_visited_threshold_rot_def)
    qed
    have inv: "deduplicated (visit_pos_rot st) \<longrightarrow>
        deduplicated (visit_pos_rot st')
        \<and> (\<forall>i j. i < length (visit_pos_rot st') \<and> j < length (visit_pos_rot st') \<and> i \<noteq> j \<longrightarrow>
             diff_pos (fst (visit_pos_rot st' ! i)) (fst (visit_pos_rot st' ! j)) > 0.01
             \<or> distance_angle (snd (visit_pos_rot st' ! i)) (snd (visit_pos_rot st' ! j)) > 0.01)"
    proof
      assume d: "deduplicated (visit_pos_rot st)"
      have d': "deduplicated (visit_pos_rot st')"
        using added_distinct_deduplicated[OF d new(2)] new(1) by simp
      then show "deduplicated (visit_pos_rot st')
        \<and> (\<forall>i j. i < length (visit_pos_rot st') \<and> j < length (visit_pos_rot st') \<and> i \<noteq> j \<longrightarrow>
             diff_pos (fst (visit_pos_rot st' ! i)) (fst (visit_pos_rot st' ! j)) > 0.01
             \<or> distance_angle (snd (visit_pos_rot st' ! i)) (snd (visit_pos_rot st' ! j)) > 0.01)"
        using deduplicated_far_apart[OF d'] by blast
    qed
    show "\<exists>new. visit_pos_rot st' = visit_pos_rot st @ new
           \<and> (\<forall>k<length new. \<forall>q\<in>set (visit_pos_rot st @ take k new).
                 \<not> (diff_pos (fst q) (fst (new ! k)) \<le> 0.01
                    \<and> distance_angle (snd q) (snd (new ! k)) \<le> 0.01))
           \<and> (deduplicated (visit_pos_rot st) \<longrightarrow>
                deduplicated (visit_pos_rot st')
                \<and> (\<forall>i j. i < length (visit_pos_rot st') \<and> j < length (visit_pos_rot st') \<and> i \<noteq> j \<longrightarrow>
                     diff_pos (fst (visit_pos_rot st' ! i)) (fst (visit_pos_rot st' ! j)) > 0.01
                     \<or> distance_angle (snd (visit_pos_rot st' ! i)) (snd (visit_pos_rot st' ! j)) > 0.01))"
      using new(1) only inv by blast
  qed
next
  show "\<forall>w evs out path difference total_point visited_list.
        main n w a = Some (evs, out)
        \<and> Written (PickleFile path difference total_point visited_list) \<in> set evs \<longrightarrow>
        (\<forall>i j. i < length visited_list \<and> j < length visited_list \<and> i \<noteq> j \<longrightarrow>
           diff_pos (fst (visited_list ! i)) (fst (visited_list ! j)) > 0.01
           \<or> distance_angle (snd (visited_list ! i)) (snd (visited_list ! j)) > 0.01)"
    using main_pickled_deduplicated deduplicated_far_apart by blast
qed

theorem visit_pos_rot_deduplicated_witness:
  "play_env (Suc (Suc (Suc (Suc 0)))) corridor_sim no_render_args 0 True start_state
     = Some (Inr (PyInt 3, corridor_end))
   \<and> deduplicated (visit_pos_rot start_state)
   \<and> visit_pos_rot corridor_end
       = visit_pos_rot start_state @ [((1, 0, 0), 0), ((2, 0, 0), 0), ((3, 0, 0), 0)]
   \<and> deduplicated (visit_pos_rot corridor_end)
   \<and> (diff_pos (fst (visit_pos_rot corridor_end ! 0)) (fst (visit_pos_rot corridor_end ! 3)) > 0.01
      \<or> distance_angle (snd (visit_pos_rot corridor_end ! 0)) (snd (visit_pos_rot corridor_end ! 3)) > 0.01)
   \<and> mark_visited start_state = (False, start_state)
   \<and> \<not> (\<forall>q\<in>set (visit_pos_rot start_state).
           \<not> (diff_pos (fst q) (base_pos (robot start_state)) \<le> 0.01
              \<and> distance_angle (snd q) (base_rot (robot start_state)) \<le> 0.01))
   \<and> (diff_pos (0, 0, 0) (3, 0, 0) > 0.01 \<or> distance_angle 0 0 > 0.01)"
proof -
  have d: "deduplicated (visit_pos_rot start_state)" by (simp add: start_state_def)
  note t = visit_pos_rot_deduplicated[of start_state "Suc (Suc (Suc (Suc 0)))" corridor_sim
      no_render_args 0 True]
  obtain new where new: "visit_pos_rot corridor_end = visit_pos_rot start_state @ new"
    and inv: "deduplicated (visit_pos_rot start_state) \<longrightarrow>
      deduplicated (visit_pos_rot corridor_end)
      \<and> (\<forall>i j. i < length (visit_pos_rot corridor_end) \<and> j < length (visit_pos_rot corridor_end) \<and> i \<noteq> j \<longrightarrow>
           diff_pos (fst (visit_pos_rot corridor_end ! i)) (fst (visit_pos_rot corridor_end ! j)) > 0.01
           \<or> distance_angle (snd (visit_pos_rot corridor_end ! i)) (snd (visit_pos_rot corridor_end ! j)) > 0.01)"
    using conjunct1[OF conjunct2[OF t]] corridor_run by blast
  have l: "(0::nat) < length (visit_pos_rot corridor_end) \<and> (3::nat) < length (visit_pos_rot corridor_end) \<and> (0::nat) \<noteq> 3"
    by (simp add: corridor_end_def)
  have "diff_pos (fst (visit_pos_rot corridor_end ! 0)) (fst (visit_pos_rot corridor_end ! 3)) > 0.01
      \<or> distance_angle (snd (visit_pos_rot corridor_end ! 0)) (snd (visit_pos_rot corridor_end ! 3)) > 0.01"
    using inv d l by blast
  moreover have "deduplicated (visit_pos_rot corridor_end)" using inv d by blast
  moreover have "visit_pos_rot corridor_end
       = visit_pos_rot start_state @ [((1, 0, 0), 0), ((2, 0, 0), 0), ((3, 0, 0), 0)]"
    by (simp add: corridor_end_def start_state_def)
  moreover have mk: "mark_visited start_state = (False, start_state)"
    by (simp add: eval_defs diff_pos_threshold distance_angle_threshold_self)
  moreover have "\<not> (\<forall>q\<in>set (visit_pos_rot start_state).
           \<not> (diff_pos (fst q) (base_pos (robot start_state)) \<le> 0.01
              \<and> distance_angle (snd q) (base_rot (robot start_state)) \<le> 0.01))"
    using conjunct1[OF t] mk by blast
  moreover have "diff_pos (0, 0, 0) (3, 0, 0) > 0.01 \<or> distance_angle 0 0 > 0.01"
  proof -
    let ?V = "[((0, 0, 0), 0), ((1, 0, 0), 0), ((2, 0, 0), 0), ((3, 0, 0), 0)] :: pose list"
    have in_evs: "Written (PickleFile ''/Users/jimmytyyang/Documents/spot_final_visit_points.pkl'' 7
                       (PyInt 3) ?V)
        \<in> set [ConfigLoaded, EnvCreated,
            Written (PickleFile ''/Users/jimmytyyang/Documents/spot_final_visit_points.pkl'' 7
                       (PyInt 3) ?V),
            Written (PngFile ''/Users/jimmytyyang/Documents/spot_final_area.png''
                       [(0, 0), (1, 0), (2, 0), (3, 0)]),
            SetTrace]"
      by simp
    have "\<forall>i j. i < length ?V \<and> j < length ?V \<and> i \<noteq> j \<longrightarrow>
           diff_pos (fst (?V ! i)) (fst (?V ! j)) > 0.01
           \<or> distance_angle (snd (?V ! i)) (snd (?V ! j)) > 0.01"
      using conjunct2[OF conjunct2[OF t]] corridor_main in_evs by blast
    then have "(0::nat) < length ?V \<and> (3::nat) < length ?V \<and> (0::nat) \<noteq> 3 \<longrightarrow>
           diff_pos (fst (?V ! 0)) (fst (?V ! 3)) > 0.01
           \<or> distance_angle (snd (?V ! 0)) (snd (?V ! 3)) > 0.01"
      by blast
    then show ?thesis by simp
  qed
  ultimately show ?thesis using corridor_run d by blast
qed

subsection \<open>The two base actions and the height of the base\<close>

lemma play_env_trace_grows:
  "play_env n s a level flag st = Some (Inr (v, st')) \<Longrightarrow>
   \<exists>tr. integrate_calls st' = integrate_calls st @ tr"
  using play_env_height[of n s a level flag st v st'] by blast

text \<open>
  Claim C3, as the code has it. An exploration step is a call of \<open>play_env\<close> that gets past
  the loading, the guard, both checks and the repeat flag. With a control frequency of 0
  it raises \<open>ZeroDivisionError\<close> before any action is integrated. Otherwise it always tries
  the base action \<open>[0, 1]\<close>: it integrates from the entry pose with linear velocity \<open>0 * 10\<close>
  and angular velocity \<open>1 * 50\<close> and makes one recursive call. What that call does decides
  the rest: if it does not return or raises, so does the step, and \<open>[1, 0]\<close> is never tried;
  if it returns a number, the step tries \<open>[1, 0]\<close>, integrating from the entry pose with
  linear velocity \<open>1 * 10\<close> and angular velocity \<open>0 * 50\<close>, makes the second recursive call,
  and when that returns a number the step returns 1 plus both numbers: no third action is
  tried. Over a whole call that returns the count \<open>k\<close>, the integrations made are \<open>k\<close> pure
  rotations at 50 and \<open>k\<close> pure translations at 10 and nothing else: two per step.
\<close>

theorem play_env_two_base_actions:
  "(use_arm_actions s a = Inr loaded \<and> \<not> recording_full a
      \<and> is_navigable s (base_pos (robot st)) \<and> \<not> contact_test s (robot st) \<and> flag_distinct
    \<longrightarrow> (ctrl_freq s = 0 \<longrightarrow> play_env (Suc n) s a level flag_distinct st = Some (Inl ZeroDivisionError))
      \<and> (ctrl_freq s \<noteq> 0 \<longrightarrow>
       (\<exists>st1 f1 st2.
           move_base s (base_pos (robot st)) (base_rot (robot st)) (0, 1) st = Inr st1
         \<and> robot st1 =
             \<lparr>base_pos =
                  set_c1 (base_pos (integrate_transform s (1 / ctrl_freq s) (of_int (0 * 10))
                                      (of_int (1 * 50)) (robot st)))
                    (c1 (base_pos (robot st))),
                base_rot =
                  base_rot (integrate_transform s (1 / ctrl_freq s) (of_int (0 * 10))
                              (of_int (1 * 50)) (robot st))\<rparr>
         \<and> integrate_calls st1 = integrate_calls st @ [(0 * 10, 1 * 50, robot st)]
         \<and> mark_visited st1 = (f1, st2)
         \<and> (case play_env n s a (level + 1) f1 st2 of
              None \<Rightarrow> play_env (Suc n) s a level flag_distinct st = None
            | Some (Inl e) \<Rightarrow> play_env (Suc n) s a level flag_distinct st = Some (Inl e)
            | Some (Inr (PyNone, st3)) \<Rightarrow> play_env (Suc n) s a level flag_distinct st = Some (Inl TypeError)
            | Some (Inr (PyInt k1, st3)) \<Rightarrow>
                (\<exists>st4 f2 st5.
                    move_base s (base_pos (robot st)) (base_rot (robot st)) (1, 0) st3 = Inr st4
                  \<and> robot st4 =
             \<lparr>base_pos =
                  set_c1 (base_pos (integrate_transform s (1 / ctrl_freq s) (of_int (1 * 10))
                                      (of_int (0 * 50)) (robot st)))
                    (c1 (base_pos (robot st))),
                base_rot =
                  base_rot (integrate_transform s (1 / ctrl_freq s) (of_int (1 * 10))
                              (of_int (0 * 50)) (robot st))\<rparr>
                  \<and> integrate_calls st4 = integrate_calls st3 @ [(1 * 10, 0 * 50, robot st)]
                  \<and> mark_visited st4 = (f2, st5)
                  \<and> (case play_env n s a (level + 1) f2 st5 of
                       None \<Rightarrow> play_env (Suc n) s a level flag_distinct st = None
                     | Some (Inl e) \<Rightarrow> play_env (Suc n) s a level flag_distinct st = Some (Inl e)
                     | Some (Inr (PyNone, st6)) \<Rightarrow> play_env (Suc n) s a level flag_distinct st = Some (Inl TypeError)
                     | Some (Inr (PyInt k2, st6)) \<Rightarrow>
                         play_env (Suc n) s a level flag_distinct st = Some (Inr (PyInt (1 + k1 + k2), st6))))))))
   \<and> (\<forall>k. play_env n s a level flag_distinct st = Some (Inr (PyInt k, st'))
        \<longrightarrow> 0 \<le> k
           \<and> (\<exists>tr. integrate_calls st' = integrate_calls st @ tr
                \<and> length (filter (\<lambda>c. (fst c, fst (snd c)) = (0, 50)) tr) = nat k
                \<and> length (filter (\<lambda>c. (fst c, fst (snd c)) = (10, 0)) tr) = nat k
                \<and> length tr = 2 * nat k))"
proof (intro conjI impI allI)
  assume h: "use_arm_actions s a = Inr loaded \<and> \<not> recording_full a
      \<and> is_navigable s (base_pos (robot st)) \<and> \<not> contact_test s (robot st) \<and> flag_distinct"
    and z: "ctrl_freq s = 0"
  show "play_env (Suc n) s a level flag_distinct st = Some (Inl ZeroDivisionError)"
    using play_env_stalled[of s a loaded st n level] h z by simp
next
  assume h: "use_arm_actions s a = Inr loaded \<and> \<not> recording_full a
      \<and> is_navigable s (base_pos (robot st)) \<and> \<not> contact_test s (robot st) \<and> flag_distinct"
    and nz: "ctrl_freq s \<noteq> 0"
  then have f: "flag_distinct = True" by simp
  show "(\<exists>st1 f1 st2.
           move_base s (base_pos (robot st)) (base_rot (robot st)) (0, 1) st = Inr st1
         \<and> robot st1 =
             \<lparr>base_pos =
                  set_c1 (base_pos (integrate_transform s (1 / ctrl_freq s) (of_int (0 * 10))
                                      (of_int (1 * 50)) (robot st)))
                    (c1 (base_pos (robot st))),
                base_rot =
                  base_rot (integrate_transform s (1 / ctrl_freq s) (of_int (0 * 10))
                              (of_int (1 * 50)) (robot st))\<rparr>
         \<and> integrate_calls st1 = integrate_calls st @ [(0 * 10, 1 * 50, robot st)]
         \<and> mark_visited st1 = (f1, st2)
         \<and> (case play_env n s a (level + 1) f1 st2 of
              None \<Rightarrow> play_env (Suc n) s a level flag_distinct st = None
            | Some (Inl e) \<Rightarrow> play_env (Suc n) s a level flag_distinct st = Some (Inl e)
            | Some (Inr (PyNone, st3)) \<Rightarrow> play_env (Suc n) s a level flag_distinct st = Some (Inl TypeError)
            | Some (Inr (PyInt k1, st3)) \<Rightarrow>
                (\<exists>st4 f2 st5.
                    move_base s (base_pos (robot st)) (base_rot (robot st)) (1, 0) st3 = Inr st4
                  \<and> robot st4 =
             \<lparr>base_pos =
                  set_c1 (base_pos (integrate_transform s (1 / ctrl_freq s) (of_int (1 * 10))
                                      (of_int (0 * 50)) (robot st)))
                    (c1 (base_pos (robot st))),
                base_rot =
                  base_rot (integrate_transform s (1 / ctrl_freq s) (of_int (1 * 10))
                              (of_int (0 * 50)) (robot st))\<rparr>
                  \<and> integrate_calls st4 = integrate_calls st3 @ [(1 * 10, 0 * 50, robot st)]
                  \<and> mark_visited st4 = (f2, st5)
                  \<and> (case play_env n s a (level + 1) f2 st5 of
                       None \<Rightarrow> play_env (Suc n) s a level flag_distinct st = None
                     | Some (Inl e) \<Rightarrow> play_env (Suc n) s a level flag_distinct st = Some (Inl e)
                     | Some (Inr (PyNone, st6)) \<Rightarrow> play_env (Suc n) s a level flag_distinct st = Some (Inl TypeError)
                     | Some (Inr (PyInt k2, st6)) \<Rightarrow>
                         play_env (Suc n) s a level flag_distinct st = Some (Inr (PyInt (1 + k1 + k2), st6))))))"
    unfolding f using play_env_explore_steps[of s a loaded st n level] h nz by blast
next
  fix k
  assume run: "play_env n s a level flag_distinct st = Some (Inr (PyInt k, st'))"
  show "0 \<le> k" using play_env_trace[OF run] by blast
  show "\<exists>tr. integrate_calls st' = integrate_calls st @ tr
          \<and> length (filter (\<lambda>c. (fst c, fst (snd c)) = (0, 50)) tr) = nat k
          \<and> length (filter (\<lambda>c. (fst c, fst (snd c)) = (10, 0)) tr) = nat k
          \<and> length tr = 2 * nat k"
    using play_env_trace[OF run] by blast
qed

theorem play_env_two_base_actions_witness:
  "use_arm_actions corridor_sim no_render_args = Inr None
   \<and> \<not> recording_full no_render_args
   \<and> is_navigable corridor_sim (base_pos (robot start_state))
   \<and> \<not> contact_test corridor_sim (robot start_state)
   \<and> ctrl_freq corridor_sim \<noteq> 0
   \<and> play_env (Suc (Suc (Suc (Suc 0)))) corridor_sim no_render_args 0 True start_state
       = Some (Inr (PyInt 3, corridor_end))
   \<and> (\<exists>st1 f1 st2 k1 st3 st4 f2 st5 k2.
         move_base corridor_sim (base_pos (robot start_state)) (base_rot (robot start_state)) (0, 1)
           start_state = Inr st1
       \<and> integrate_calls st1 = integrate_calls start_state @ [(0 * 10, 1 * 50, robot start_state)]
       \<and> mark_visited st1 = (f1, st2)
       \<and> play_env (Suc (Suc (Suc 0))) corridor_sim no_render_args (0 + 1) f1 st2
           = Some (Inr (PyInt k1, st3))
       \<and> move_base corridor_sim (base_pos (robot start_state)) (base_rot (robot start_state)) (1, 0)
           st3 = Inr st4
       \<and> integrate_calls st4 = integrate_calls st3 @ [(1 * 10, 0 * 50, robot start_state)]
       \<and> mark_visited st4 = (f2, st5)
       \<and> play_env (Suc (Suc (Suc 0))) corridor_sim no_render_args (0 + 1) f2 st5
           = Some (Inr (PyInt k2, corridor_end))
       \<and> PyInt 3 = PyInt (1 + k1 + k2))
   \<and> (\<exists>tr. integrate_calls corridor_end = integrate_calls start_state @ tr
        \<and> length (filter (\<lambda>c. (fst c, fst (snd c)) = (0, 50)) tr) = nat 3
        \<and> length (filter (\<lambda>c. (fst c, fst (snd c)) = (10, 0)) tr) = nat 3
        \<and> length tr = 2 * nat 3)
   \<and> ctrl_freq stalled_sim = 0
   \<and> play_env (Suc 0) stalled_sim no_render_args 0 True start_state
       = Some (Inl ZeroDivisionError)"
proof -
  have pre: "use_arm_actions corridor_sim no_render_args = Inr None
      \<and> \<not> recording_full no_render_args
      \<and> is_navigable corridor_sim (base_pos (robot start_state))
      \<and> \<not> contact_test corridor_sim (robot start_state) \<and> True"
    by (simp add: use_arm_actions_def recording_full_def no_render_args_def corridor_sim_def
        start_state_def origin_def c0_def)
  have nz: "ctrl_freq corridor_sim \<noteq> 0" by (simp add: corridor_sim_def)
  have pre0: "use_arm_actions stalled_sim no_render_args = Inr None
      \<and> \<not> recording_full no_render_args
      \<and> is_navigable stalled_sim (base_pos (robot start_state))
      \<and> \<not> contact_test stalled_sim (robot start_state) \<and> True"
    by (simp add: use_arm_actions_def recording_full_def no_render_args_def stalled_sim_def
        corridor_sim_def start_state_def origin_def c0_def)
  have z: "ctrl_freq stalled_sim = 0" by (simp add: stalled_sim_def)
  note t = play_env_two_base_actions[of corridor_sim no_render_args None start_state True
      "Suc (Suc (Suc 0))" 0 corridor_end]
  note t4 = play_env_two_base_actions[of corridor_sim no_render_args None start_state True
      "Suc (Suc (Suc (Suc 0)))" 0 corridor_end]
  note t0 = play_env_two_base_actions[of stalled_sim no_render_args None start_state True 0 0
      corridor_end]
  define recurse where "recurse = play_env (Suc (Suc (Suc 0))) corridor_sim no_render_args (0 + 1)"
  obtain st1 f1 st2 where a:
    "move_base corridor_sim (base_pos (robot start_state)) (base_rot (robot start_state)) (0, 1)
       start_state = Inr st1"
    "integrate_calls st1 = integrate_calls start_state @ [(0 * 10, 1 * 50, robot start_state)]"
    "mark_visited st1 = (f1, st2)"
    and c1: "case recurse f1 st2 of
          None \<Rightarrow> play_env (Suc (Suc (Suc (Suc 0)))) corridor_sim no_render_args 0 True start_state = None
        | Some (Inl e) \<Rightarrow> play_env (Suc (Suc (Suc (Suc 0)))) corridor_sim no_render_args 0 True start_state = Some (Inl e)
        | Some (Inr (PyNone, st3)) \<Rightarrow> play_env (Suc (Suc (Suc (Suc 0)))) corridor_sim no_render_args 0 True start_state = Some (Inl TypeError)
        | Some (Inr (PyInt k1, st3)) \<Rightarrow>
            (\<exists>st4 f2 st5.
                move_base corridor_sim (base_pos (robot start_state)) (base_rot (robot start_state)) (1, 0) st3 = Inr st4
              \<and> robot st4 =
                  \<lparr>base_pos =
                     set_c1 (base_pos (integrate_transform corridor_sim (1 / ctrl_freq corridor_sim)
                                         (of_int (1 * 10)) (of_int (0 * 50)) (robot start_state)))
                       (c1 (base_pos (robot start_state))),
                   base_rot =
                     base_rot (integrate_transform corridor_sim (1 / ctrl_freq corridor_sim)
                                 (of_int (1 * 10)) (of_int (0 * 50)) (robot start_state))\<rparr>
              \<and> integrate_calls st4 = integrate_calls st3 @ [(1 * 10, 0 * 50, robot start_state)]
              \<and> mark_visited st4 = (f2, st5)
              \<and> (case recurse f2 st5 of
                   None \<Rightarrow> play_env (Suc (Suc (Suc (Suc 0)))) corridor_sim no_render_args 0 True start_state = None
                 | Some (Inl e) \<Rightarrow> play_env (Suc (Suc (Suc (Suc 0)))) corridor_sim no_render_args 0 True start_state = Some (Inl e)
                 | Some (Inr (PyNone, st6)) \<Rightarrow> play_env (Suc (Suc (Suc (Suc 0)))) corridor_sim no_render_args 0 True start_state = Some (Inl TypeError)
                 | Some (Inr (PyInt k2, st6)) \<Rightarrow>
                     play_env (Suc (Suc (Suc (Suc 0)))) corridor_sim no_render_args 0 True start_state
                     = Some (Inr (PyInt (1 + k1 + k2), st6))))"
    using conjunct1[OF t] pre nz unfolding recurse_def by blast
  obtain k1 st3 where first: "recurse f1 st2 = Some (Inr (PyInt k1, st3))"
    using c1 unfolding corridor_run
    by (auto split: option.splits sum.splits prod.splits pyval.splits)
  then obtain st4 f2 st5 where b:
    "move_base corridor_sim (base_pos (robot start_state)) (base_rot (robot start_state)) (1, 0) st3 = Inr st4"
    "integrate_calls st4 = integrate_calls st3 @ [(1 * 10, 0 * 50, robot start_state)]"
    "mark_visited st4 = (f2, st5)"
    and c2: "case recurse f2 st5 of
           None \<Rightarrow> play_env (Suc (Suc (Suc (Suc 0)))) corridor_sim no_render_args 0 True start_state = None
         | Some (Inl e) \<Rightarrow> play_env (Suc (Suc (Suc (Suc 0)))) corridor_sim no_render_args 0 True start_state = Some (Inl e)
         | Some (Inr (PyNone, st6)) \<Rightarrow> play_env (Suc (Suc (Suc (Suc 0)))) corridor_sim no_render_args 0 True start_state = Some (Inl TypeError)
         | Some (Inr (PyInt k2, st6)) \<Rightarrow>
             play_env (Suc (Suc (Suc (Suc 0)))) corridor_sim no_render_args 0 True start_state
             = Some (Inr (PyInt (1 + k1 + k2), st6))"
    using c1 by auto
  obtain k2 where second: "recurse f2 st5 = Some (Inr (PyInt k2, corridor_end))"
    "PyInt 3 = PyInt (1 + k1 + k2)"
    using c2 unfolding corridor_run
    by (auto split: option.splits sum.splits prod.splits pyval.splits)
  have steps: "\<exists>st1 f1 st2 k1 st3 st4 f2 st5 k2.
         move_base corridor_sim (base_pos (robot start_state)) (base_rot (robot start_state)) (0, 1)
           start_state = Inr st1
       \<and> integrate_calls st1 = integrate_calls start_state @ [(0 * 10, 1 * 50, robot start_state)]
       \<and> mark_visited st1 = (f1, st2)
       \<and> play_env (Suc (Suc (Suc 0))) corridor_sim no_render_args (0 + 1) f1 st2
           = Some (Inr (PyInt k1, st3))
       \<and> move_base corridor_sim (base_pos (robot start_state)) (base_rot (robot start_state)) (1, 0)
           st3 = Inr st4
       \<and> integrate_calls st4 = integrate_calls st3 @ [(1 * 10, 0 * 50, robot start_state)]
       \<and> mark_visited st4 = (f2, st5)
       \<and> play_env (Suc (Suc (Suc 0))) corridor_sim no_render_args (0 + 1) f2 st5
           = Some (Inr (PyInt k2, corridor_end))
       \<and> PyInt 3 = PyInt (1 + k1 + k2)"
    using a b first second unfolding recurse_def by blast
  have counts: "\<exists>tr. integrate_calls corridor_end = integrate_calls start_state @ tr
        \<and> length (filter (\<lambda>c. (fst c, fst (snd c)) = (0, 50)) tr) = nat 3
        \<and> length (filter (\<lambda>c. (fst c, fst (snd c)) = (10, 0)) tr) = nat 3
        \<and> length tr = 2 * nat 3"
    using conjunct2[OF t4] corridor_run by blast
  have stalled: "play_env (Suc 0) stalled_sim no_render_args 0 True start_state
       = Some (Inl ZeroDivisionError)"
    using conjunct1[OF t0] pre0 z by blast
  show ?thesis using pre nz corridor_run steps counts z stalled by blast
qed

theorem play_env_fewer_actions_counterexample:
  "use_arm_actions stalled_sim no_render_args = Inr None
   \<and> \<not> recording_full no_render_args
   \<and> is_navigable stalled_sim (base_pos (robot start_state))
   \<and> \<not> contact_test stalled_sim (robot start_state)
   \<and> (\<forall>n. play_env (Suc n) stalled_sim no_render_args 0 True start_state
            = Some (Inl ZeroDivisionError))
   \<and> (\<forall>act st. move_base stalled_sim (base_pos (robot start_state))
                    (base_rot (robot start_state)) act st = Inl ZeroDivisionError)
   \<and> use_arm_actions drifting_sim no_render_args = Inr None
   \<and> is_navigable drifting_sim (base_pos (robot start_state))
   \<and> \<not> contact_test drifting_sim (robot start_state)
   \<and> ctrl_freq drifting_sim \<noteq> 0
   \<and> (\<exists>st1. move_base drifting_sim (base_pos (robot start_state))
                (base_rot (robot start_state)) (0, 1) start_state = Inr st1
             \<and> mark_visited st1 = (True, drifted_state))
   \<and> (\<forall>n. play_env n drifting_sim no_render_args (0 + 1) True drifted_state = None)
   \<and> (\<forall>n. play_env n drifting_sim no_render_args 0 True start_state = None)"
proof -
  have "use_arm_actions stalled_sim no_render_args = Inr None
   \<and> \<not> recording_full no_render_args
   \<and> is_navigable stalled_sim (base_pos (robot start_state))
   \<and> \<not> contact_test stalled_sim (robot start_state)
   \<and> (\<forall>n. play_env (Suc n) stalled_sim no_render_args 0 True start_state
            = Some (Inl ZeroDivisionError))
   \<and> (\<forall>act st. move_base stalled_sim (base_pos (robot start_state))
                    (base_rot (robot start_state)) act st = Inl ZeroDivisionError)"
    by (simp add: eval_defs)
  moreover have "use_arm_actions drifting_sim no_render_args = Inr None
   \<and> is_navigable drifting_sim (base_pos (robot start_state))
   \<and> \<not> contact_test drifting_sim (robot start_state)
   \<and> ctrl_freq drifting_sim \<noteq> 0"
    by (simp add: eval_defs)
  moreover have "\<exists>st1. move_base drifting_sim (base_pos (robot start_state))
                (base_rot (robot start_state)) (0, 1) start_state = Inr st1
             \<and> mark_visited st1 = (True, drifted_state)"
    by (simp add: eval_defs drifted_state_def diff_pos_threshold)
  moreover have "\<forall>n. play_env n drifting_sim no_render_args (0 + 1) True drifted_state = None"
    using drifting_first_call by blast
  moreover have "\<forall>n. play_env n drifting_sim no_render_args 0 True start_state = None"
    using drifting_never_returns[of start_state _ 0]
    by (simp add: start_state_def origin_def c0_def)
  ultimately show ?thesis by blast
qed

text \<open>
  Claim C10. A pass of the loop integrates from the pose at function entry, whatever the
  base was moved to in between, and overwrites index 1 of the new position with index 1 of
  the entry position. So over a call of \<open>play_env\<close> that returns, the height of the base at
  the end is the height at entry, every appended pose and every integrated rigid state has
  that height, and an exploring call integrates both of its base actions from its entry pose.
\<close>

theorem play_env_keeps_height:
  "(\<forall>act st0 st1. move_base s before_base_pos before_base_rot act st0 = Inr st1 \<longrightarrow>
      robot st1 =
        (let target = integrate_transform s (1 / ctrl_freq s) (of_int (fst act * 10))
                        (of_int (snd act * 50))
                        \<lparr>base_pos = before_base_pos, base_rot = before_base_rot\<rparr>
         in \<lparr>base_pos = set_c1 (base_pos target) (c1 before_base_pos), base_rot = base_rot target\<rparr>)
      \<and> c1 (base_pos (robot st1)) = c1 before_base_pos)
   \<and> (play_env n s a level flag_distinct st = Some (Inr (v, st')) \<longrightarrow>
        c1 (base_pos (robot st')) = c1 (base_pos (robot st))
        \<and> (\<exists>new tr. visit_pos_rot st' = visit_pos_rot st @ new
             \<and> integrate_calls st' = integrate_calls st @ tr
             \<and> (\<forall>p\<in>set new. c1 (fst p) = c1 (base_pos (robot st)))
             \<and> (\<forall>c\<in>set tr. c1 (base_pos (snd (snd c))) = c1 (base_pos (robot st)))
             \<and> (v \<noteq> PyNone \<and> is_navigable s (base_pos (robot st))
                  \<and> \<not> contact_test s (robot st) \<and> flag_distinct
                \<longrightarrow> (\<exists>tr1 tr2. tr = (0, 50, robot st) # tr1 @ (10, 0, robot st) # tr2))))"
proof (intro conjI allI impI)
  fix act st0 st1
  assume mv: "move_base s before_base_pos before_base_rot act st0 = Inr st1"
  show "robot st1 =
        (let target = integrate_transform s (1 / ctrl_freq s) (of_int (fst act * 10))
                        (of_int (snd act * 50))
                        \<lparr>base_pos = before_base_pos, base_rot = before_base_rot\<rparr>
         in \<lparr>base_pos = set_c1 (base_pos target) (c1 before_base_pos), base_rot = base_rot target\<rparr>)"
    using mv by (auto simp: move_base_def Let_def split: if_splits)
  show "c1 (base_pos (robot st1)) = c1 before_base_pos" using move_base_height[OF mv] .
next
  assume run: "play_env n s a level flag_distinct st = Some (Inr (v, st'))"
  show "c1 (base_pos (robot st')) = c1 (base_pos (robot st))"
    using play_env_height[OF run] by blast
  obtain new tr where nt: "visit_pos_rot st' = visit_pos_rot st @ new"
    "integrate_calls st' = integrate_calls st @ tr"
    "\<forall>p\<in>set new. c1 (fst p) = c1 (base_pos (robot st))"
    "\<forall>c\<in>set tr. c1 (base_pos (snd (snd c))) = c1 (base_pos (robot st))"
    using play_env_height[OF run] by (auto simp: list_all_iff)
  have shape: "v \<noteq> PyNone \<and> is_navigable s (base_pos (robot st)) \<and> \<not> contact_test s (robot st)
            \<and> flag_distinct \<longrightarrow> (\<exists>tr1 tr2. tr = (0, 50, robot st) # tr1 @ (10, 0, robot st) # tr2)"
  proof
    assume ok: "v \<noteq> PyNone \<and> is_navigable s (base_pos (robot st)) \<and> \<not> contact_test s (robot st)
            \<and> flag_distinct"
    obtain n' where n': "n = Suc n'" using run by (cases n) auto
    obtain st1 f1 st2 k1 st3 st4 f2 st5 k2 where c:
      "move_base s (base_pos (robot st)) (base_rot (robot st)) (0, 1) st = Inr st1"
      "mark_visited st1 = (f1, st2)"
      "play_env n' s a (level + 1) f1 st2 = Some (Inr (PyInt k1, st3))"
      "move_base s (base_pos (robot st)) (base_rot (robot st)) (1, 0) st3 = Inr st4"
      "mark_visited st4 = (f2, st5)"
      "play_env n' s a (level + 1) f2 st5 = Some (Inr (PyInt k2, st'))"
      using play_env_return_cases[OF run[unfolded n']] ok by (auto simp: passable_pose_of)
    obtain tr1 where tr1: "integrate_calls st3 = integrate_calls st2 @ tr1"
      using play_env_trace_grows[OF c(3)] by blast
    obtain tr2 where tr2: "integrate_calls st' = integrate_calls st5 @ tr2"
      using play_env_trace_grows[OF c(6)] by blast
    have "integrate_calls st' = integrate_calls st @ (0, 50, robot st) # tr1 @ (10, 0, robot st) # tr2"
      using move_base_Inr(4)[OF c(1)] mark_visited_eq(2)[OF c(2)] tr1
        move_base_Inr(4)[OF c(4)] mark_visited_eq(2)[OF c(5)] tr2
      by (simp add: robot_eta)
    then have "tr = (0, 50, robot st) # tr1 @ (10, 0, robot st) # tr2" using nt(2) by simp
    then show "\<exists>tr1 tr2. tr = (0, 50, robot st) # tr1 @ (10, 0, robot st) # tr2" by blast
  qed
  show "\<exists>new tr. visit_pos_rot st' = visit_pos_rot st @ new
          \<and> integrate_calls st' = integrate_calls st @ tr
          \<and> (\<forall>p\<in>set new. c1 (fst p) = c1 (base_pos (robot st)))
          \<and> (\<forall>c\<in>set tr. c1 (base_pos (snd (snd c))) = c1 (base_pos (robot st)))
          \<and> (v \<noteq> PyNone \<and> is_navigable s (base_pos (robot st))
               \<and> \<not> contact_test s (robot st) \<and> flag_distinct
             \<longrightarrow> (\<exists>tr1 tr2. tr = (0, 50, robot st) # tr1 @ (10, 0, robot st) # tr2))"
    using nt shape by blast
qed

subsection \<open>Returning and terminating\<close>

theorem play_env_keeps_height_witness:
  "move_base corridor_sim (0, 0, 0) 0 (1, 0) start_state
     = Inr (start_state\<lparr>robot := \<lparr>base_pos = (1, 0, 0), base_rot = 0\<rparr>,
                         integrate_calls := [(10, 0, origin)]\<rparr>)
   \<and> c1 (base_pos (integrate_transform corridor_sim (1 / 10) 10 0 origin)) = 1
   \<and> c1 (base_pos (robot (start_state\<lparr>robot := \<lparr>base_pos = (1, 0, 0), base_rot = 0\<rparr>,
                                        integrate_calls := [(10, 0, origin)]\<rparr>))) = c1 (0, 0, 0)
   \<and> play_env (Suc (Suc (Suc (Suc 0)))) corridor_sim no_render_args 0 True start_state
       = Some (Inr (PyInt 3, corridor_end))
   \<and> c1 (base_pos (robot corridor_end)) = c1 (base_pos (robot start_state))
   \<and> (\<exists>tr1 tr2. integrate_calls corridor_end
         = integrate_calls start_state @ (0, 50, robot start_state) # tr1 @ (10, 0, robot start_state) # tr2)"
proof -
  have mv: "move_base corridor_sim (0, 0, 0) 0 (1, 0) start_state
     = Inr (start_state\<lparr>robot := \<lparr>base_pos = (1, 0, 0), base_rot = 0\<rparr>,
                         integrate_calls := [(10, 0, origin)]\<rparr>)"
    by (simp add: eval_defs)
  have lift: "c1 (base_pos (integrate_transform corridor_sim (1 / 10) 10 0 origin)) = 1"
    by (simp add: eval_defs)
  have pre: "PyInt 3 \<noteq> PyNone \<and> is_navigable corridor_sim (base_pos (robot start_state))
      \<and> \<not> contact_test corridor_sim (robot start_state) \<and> True"
    by (simp add: corridor_sim_def start_state_def origin_def c0_def)
  note t = play_env_keeps_height[of corridor_sim "(0, 0, 0)" 0 "Suc (Suc (Suc (Suc 0)))"
      no_render_args 0 True start_state "PyInt 3" corridor_end]
  have step: "c1 (base_pos (robot (start_state\<lparr>robot := \<lparr>base_pos = (1, 0, 0), base_rot = 0\<rparr>,
                                        integrate_calls := [(10, 0, origin)]\<rparr>))) = c1 (0, 0, 0)"
    using conjunct1[OF t] mv by blast
  have run: "c1 (base_pos (robot corridor_end)) = c1 (base_pos (robot start_state))
     \<and> (\<exists>tr1 tr2. integrate_calls corridor_end
         = integrate_calls start_state @ (0, 50, robot start_state) # tr1 @ (10, 0, robot start_state) # tr2)"
    using conjunct2[OF t] corridor_run pre by blast
  show ?thesis using mv lift step run corridor_run by blast
qed

text \<open>
  Claim C4, as the code has it. A call that returns without recursing (at depth 1 no
  recursive call returns) does so because the recording guard fired, the base position is
  not navigable, the robot is in contact, or the pose was flagged as a repeat. The
  exploration terminates when the poses it can reach lie in a region \<open>R\<close>, closed under the
  two base actions from every pose that passes the checks, in which at most \<open>N\<close> poses are
  pairwise distinct under the thresholds: the depth \<open>N - len(visit_pos_rot) + 2\<close> is then
  enough, and every greater depth gives the same result.
\<close>

theorem play_env_returns_and_terminates:
  "(\<forall>v st'. play_env (Suc 0) s a level flag_distinct st = Some (Inr (v, st')) \<longrightarrow>
      recording_full a \<or> \<not> is_navigable s (base_pos (robot st)) \<or> contact_test s (robot st)
      \<or> \<not> flag_distinct)
   \<and> ((\<forall>q\<in>R. passable s q \<longrightarrow> next_pose s q (0, 1) \<in> R \<and> next_pose s q (1, 0) \<in> R)
      \<and> (\<forall>V. deduplicated V \<and> set V \<subseteq> R \<longrightarrow> length V \<le> N)
      \<and> pose_of (robot st) \<in> R \<and> set (visit_pos_rot st) \<subseteq> R
      \<and> deduplicated (visit_pos_rot st)
      \<longrightarrow> (\<exists>r. \<forall>m\<ge>N - length (visit_pos_rot st) + 2.
                 play_env m s a level flag_distinct st = Some r))"
proof (intro conjI allI impI)
  fix v st'
  assume run: "play_env (Suc 0) s a level flag_distinct st = Some (Inr (v, st'))"
  show "recording_full a \<or> \<not> is_navigable s (base_pos (robot st)) \<or> contact_test s (robot st)
        \<or> \<not> flag_distinct"
    using play_env_return_cases[OF run] by (auto simp: passable_pose_of)
next
  assume h: "(\<forall>q\<in>R. passable s q \<longrightarrow> next_pose s q (0, 1) \<in> R \<and> next_pose s q (1, 0) \<in> R)
      \<and> (\<forall>V. deduplicated V \<and> set V \<subseteq> R \<longrightarrow> length V \<le> N)
      \<and> pose_of (robot st) \<in> R \<and> set (visit_pos_rot st) \<subseteq> R
      \<and> deduplicated (visit_pos_rot st)"
  then obtain r where
    r: "play_env (N - length (visit_pos_rot st) + 2) s a level flag_distinct st = Some r"
    using play_env_terminates_aux[of R s N st "N - length (visit_pos_rot st)" a level flag_distinct]
    by blast
  have "\<forall>m\<ge>N - length (visit_pos_rot st) + 2. play_env m s a level flag_distinct st = Some r"
    using play_env_mono[OF r] by blast
  then show "\<exists>r. \<forall>m\<ge>N - length (visit_pos_rot st) + 2.
               play_env m s a level flag_distinct st = Some r"
    by blast
qed

lemma corridor_closed:
  "\<forall>q\<in>corridor_poses. passable corridor_sim q \<longrightarrow>
     next_pose corridor_sim q (0, 1) \<in> corridor_poses \<and> next_pose corridor_sim q (1, 0) \<in> corridor_poses"
  by (simp add: corridor_poses_def passable_def next_pose_def corridor_sim_def set_c1_def
      c0_def c1_def c2_def)

lemma corridor_packing:
  "\<forall>V. deduplicated V \<and> set V \<subseteq> corridor_poses \<longrightarrow> length V \<le> 4"
proof (intro allI impI)
  fix V assume h: "deduplicated V \<and> set V \<subseteq> corridor_poses"
  then have "distinct V" using deduplicated_distinct by blast
  then have "length V = card (set V)" by (simp add: distinct_card)
  also have "\<dots> \<le> card corridor_poses"
    using h by (intro card_mono) (simp_all add: corridor_poses_def)
  also have "\<dots> \<le> 4" by (simp add: corridor_poses_def card_insert_if)
  finally show "length V \<le> 4" .
qed

theorem play_env_returns_and_terminates_witness:
  "pose_of (robot start_state) \<in> corridor_poses
   \<and> set (visit_pos_rot start_state) \<subseteq> corridor_poses
   \<and> deduplicated (visit_pos_rot start_state)
   \<and> 4 - length (visit_pos_rot start_state) + 2 = 5
   \<and> (\<exists>r. \<forall>m\<ge>5. play_env m corridor_sim no_render_args 0 True start_state = Some r)
   \<and> play_env (Suc 0) walled_sim no_render_args 0 True start_state
       = Some (Inr (PyInt 0, start_state))
   \<and> (recording_full no_render_args
        \<or> \<not> is_navigable walled_sim (base_pos (robot start_state))
        \<or> contact_test walled_sim (robot start_state) \<or> \<not> True)"
proof -
  have s: "pose_of (robot start_state) \<in> corridor_poses"
    "set (visit_pos_rot start_state) \<subseteq> corridor_poses"
    "deduplicated (visit_pos_rot start_state)"
    "4 - length (visit_pos_rot start_state) + 2 = 5"
    by (simp_all add: start_state_def origin_def pose_of_def vec2list_id corridor_poses_def)
  note t = play_env_returns_and_terminates[of corridor_sim no_render_args 0 True start_state
      corridor_poses 4]
  have "\<exists>r. \<forall>m\<ge>4 - length (visit_pos_rot start_state) + 2.
          play_env m corridor_sim no_render_args 0 True start_state = Some r"
    using conjunct2[OF t] corridor_closed corridor_packing s(1,2,3) by blast
  then have run: "\<exists>r. \<forall>m\<ge>5. play_env m corridor_sim no_render_args 0 True start_state = Some r"
    using s(4) by simp
  have leaf: "play_env (Suc 0) walled_sim no_render_args 0 True start_state
       = Some (Inr (PyInt 0, start_state))"
    by (simp add: eval_defs)
  note t' = play_env_returns_and_terminates[of walled_sim no_render_args 0 True start_state
      corridor_poses 4]
  have "recording_full no_render_args
        \<or> \<not> is_navigable walled_sim (base_pos (robot start_state))
        \<or> contact_test walled_sim (robot start_state) \<or> \<not> True"
    using conjunct1[OF t'] leaf by blast
  then show ?thesis using s run leaf by blast
qed

theorem play_env_unbounded_counterexample:
  "is_navigable corridor_sim (base_pos (robot start_state))
   \<and> \<not> contact_test corridor_sim (robot start_state)
   \<and> play_env (Suc 0) corridor_sim no_render_args 0 False start_state
       = Some (Inr (PyInt 0, start_state))
   \<and> (\<forall>n. play_env n endless_sim no_render_args 0 True start_state = None)"
proof -
  have "is_navigable corridor_sim (base_pos (robot start_state))
     \<and> \<not> contact_test corridor_sim (robot start_state)
     \<and> play_env (Suc 0) corridor_sim no_render_args 0 False start_state
         = Some (Inr (PyInt 0, start_state))"
    by (simp add: eval_defs)
  then show ?thesis using endless_from_start by blast
qed

subsection \<open>Files and exceptions of the main block\<close>

lemma main_finished_list:
  assumes "main n w a = Some (evs, Finished)"
  shows "\<exists>config total_point new.
           edit_config a (get_config w (cfg a) (opts a)) = Inr config
         \<and> evs = [ConfigLoaded, EnvCreated,
                  Written (PickleFile ''/Users/jimmytyyang/Documents/spot_final_visit_points.pkl''
                             (elapsed w) total_point (pose_of (reset_robot w config) # new)),
                  Written (PngFile ''/Users/jimmytyyang/Documents/spot_final_area.png''
                             (map (\<lambda>point. (c0 (fst point), c2 (fst point)))
                                (pose_of (reset_robot w config) # new))),
                  SetTrace]"
proof (cases "load_config w a")
  case (Inl e)
  then show ?thesis using assms by (simp add: main_def)
next
  case (Inr config0)
  then have c0: "config0 = get_config w (cfg a) (opts a)"
    by (auto simp: load_config_def split: if_splits)
  show ?thesis
  proof (cases "edit_config a config0")
    case (Inl e)
    then show ?thesis using assms Inr by (simp add: main_def)
  next
    case config: (Inr config)
    let ?st0 = "\<lparr>robot = reset_robot w config,
                  visit_pos_rot = [(vec2list (base_pos (reset_robot w config)), base_rot (reset_robot w config))],
                  integrate_calls = []\<rparr>"
    show ?thesis
    proof (cases "play_env n (make_env w config) a 0 True ?st0")
      case None
      then show ?thesis using assms Inr config by (simp add: main_def Let_def)
    next
      case (Some r)
      show ?thesis
      proof (cases r)
        case (Inl e)
        then show ?thesis using assms Inr config Some by (simp add: main_def Let_def)
      next
        case r: (Inr vs)
        obtain v st where vs: "vs = (v, st)" by (cases vs) auto
        obtain new where new: "visit_pos_rot st = visit_pos_rot ?st0 @ new"
          using play_env_visit_grows[of n "make_env w config" a 0 True ?st0 v st] Some r vs
          by auto
        then have l: "visit_pos_rot st = pose_of (reset_robot w config) # new"
          by (simp add: pose_of_def)
        have z: "zip (map (\<lambda>point. c0 (fst point)) xs) (map (\<lambda>point. c2 (fst point)) xs)
                 = map (\<lambda>point. (c0 (fst point), c2 (fst point))) xs" for xs :: "pose list"
          by (induction xs) simp_all
        show ?thesis
          using assms Inr config Some r vs l c0
          by (auto simp: main_def Let_def SAVE_NAME_def z split: if_splits)
      qed
    qed
  qed
qed

text \<open>
  Claim C5, as the code has it. The visited list of a run starts as the one-element list of
  the pose after \<open>env.reset()\<close>, and pickling it is not optional: every run that reaches the
  end of the script has written the pickle file, with that list in it.
\<close>

theorem pickle_always_written:
  "main n w a = Some (evs, Finished) \<longrightarrow>
     (\<exists>config total_point new.
        edit_config a (get_config w (cfg a) (opts a)) = Inr config
      \<and> Written (PickleFile ''/Users/jimmytyyang/Documents/spot_final_visit_points.pkl''
                   (elapsed w) total_point (pose_of (reset_robot w config) # new)) \<in> set evs)"
proof
  assume "main n w a = Some (evs, Finished)"
  then obtain config total_point new where
    "edit_config a (get_config w (cfg a) (opts a)) = Inr config"
    "evs = [ConfigLoaded, EnvCreated,
            Written (PickleFile ''/Users/jimmytyyang/Documents/spot_final_visit_points.pkl''
                       (elapsed w) total_point (pose_of (reset_robot w config) # new)),
            Written (PngFile ''/Users/jimmytyyang/Documents/spot_final_area.png''
                       (map (\<lambda>point. (c0 (fst point), c2 (fst point)))
                          (pose_of (reset_robot w config) # new))),
            SetTrace]"
    using main_finished_list by blast
  then show "\<exists>config total_point new.
        edit_config a (get_config w (cfg a) (opts a)) = Inr config
      \<and> Written (PickleFile ''/Users/jimmytyyang/Documents/spot_final_visit_points.pkl''
                   (elapsed w) total_point (pose_of (reset_robot w config) # new)) \<in> set evs"
    by auto
qed

theorem pickle_always_written_witness:
  "(\<exists>evs. main (Suc (Suc (Suc (Suc 0)))) corridor_world no_render_args = Some (evs, Finished)
      \<and> (\<exists>config total_point new.
            edit_config no_render_args
              (get_config corridor_world (cfg no_render_args) (opts no_render_args)) = Inr config
          \<and> Written (PickleFile ''/Users/jimmytyyang/Documents/spot_final_visit_points.pkl''
                       (elapsed corridor_world) total_point
                       (pose_of (reset_robot corridor_world config) # new)) \<in> set evs))"
  using pickle_always_written[of "Suc (Suc (Suc (Suc 0)))" corridor_world no_render_args]
    corridor_main
  by blast

theorem pickle_optional_counterexample:
  "\<not> (\<exists>n w a evs. main n w a = Some (evs, Finished)
         \<and> (\<forall>path difference total_point visited_list.
               Written (PickleFile path difference total_point visited_list) \<notin> set evs))"
proof
  assume "\<exists>n w a evs. main n w a = Some (evs, Finished)
         \<and> (\<forall>path difference total_point visited_list.
               Written (PickleFile path difference total_point visited_list) \<notin> set evs)"
  then obtain n w a evs where run: "main n w a = Some (evs, Finished)"
    and none: "\<forall>path difference total_point visited_list.
               Written (PickleFile path difference total_point visited_list) \<notin> set evs"
    by blast
  obtain total_point visited_list where
    "Written (PickleFile ''/Users/jimmytyyang/Documents/spot_final_visit_points.pkl''
       (elapsed w) total_point visited_list) \<in> set evs"
    using main_finished[OF run] by auto
  then show False using none by blast
qed

text \<open>
  Claim C6. A run with \<open>--save-obs\<close> and \<open>--save-actions\<close> writes the pickled visit list and
  the PNG plot, and neither a video nor an action trajectory file.
\<close>

theorem recording_run_writes_no_video:
  "save_obs recording_args \<and> save_actions recording_args
   \<and> main (Suc (Suc (Suc (Suc 0)))) corridor_world recording_args
     = Some ([ConfigLoaded, EnvCreated,
              Written (PickleFile ''/Users/jimmytyyang/Documents/spot_final_visit_points.pkl'' 7
                         (PyInt 3) [((0, 0, 0), 0), ((1, 0, 0), 0), ((2, 0, 0), 0), ((3, 0, 0), 0)]),
              Written (PngFile ''/Users/jimmytyyang/Documents/spot_final_area.png''
                         [(0, 0), (1, 0), (2, 0), (3, 0)]),
              SetTrace], Finished)"
  using recording_main by (simp add: recording_args_def no_render_args_def)

text \<open>
  Claim C7, as the code has it. When PyGame is missing and \<open>--no-render\<close> is not given, the
  program raises \<open>ImportError\<close> at startup, before anything else happens; under \<open>--no-render\<close>
  it never ends in an \<open>ImportError\<close>.
\<close>

theorem import_error_unless_no_render:
  "(\<not> has_pygame w \<and> \<not> no_render a \<longrightarrow> main n w a = Some ([], Raised ImportError))
   \<and> (no_render a \<longrightarrow> (\<forall>evs. main n w a \<noteq> Some (evs, Raised ImportError)))"
proof (intro conjI impI allI)
  assume "\<not> has_pygame w \<and> \<not> no_render a"
  then show "main n w a = Some ([], Raised ImportError)" using main_ImportError by blast
next
  fix evs
  assume nr: "no_render a"
  show "main n w a \<noteq> Some (evs, Raised ImportError)"
  proof
    assume "main n w a = Some (evs, Raised ImportError)"
    from main_raises[OF this] nr show False by auto
  qed
qed

theorem import_error_unless_no_render_witness:
  "\<not> has_pygame corridor_world \<and> \<not> no_render rendering_args
   \<and> main (Suc (Suc (Suc (Suc 0)))) corridor_world rendering_args = Some ([], Raised ImportError)
   \<and> no_render no_render_args
   \<and> (\<forall>evs. main (Suc (Suc (Suc (Suc 0)))) corridor_world no_render_args
              \<noteq> Some (evs, Raised ImportError))"
proof -
  have h: "\<not> has_pygame corridor_world \<and> \<not> no_render rendering_args"
    by (simp add: has_pygame_def corridor_world_def rendering_args_def no_render_args_def)
  have k: "no_render no_render_args" by (simp add: no_render_args_def)
  show ?thesis
    using import_error_unless_no_render[of corridor_world rendering_args "Suc (Suc (Suc (Suc 0)))"]
      import_error_unless_no_render[of corridor_world no_render_args "Suc (Suc (Suc (Suc 0)))"]
      h k
    by blast
qed

theorem import_error_counterexample:
  "\<not> has_pygame corridor_world
   \<and> (\<exists>evs. main (Suc (Suc (Suc (Suc 0)))) corridor_world no_render_args = Some (evs, Finished))"
  using corridor_main by (simp add: has_pygame_def corridor_world_def)

text \<open>
  Claim C8. When the program has loaded its configuration, \<open>--add-ik\<close> is given and the
  action set of the loaded configuration has no \<open>ARM_ACTION\<close> entry, the program raises
  \<open>ValueError\<close> after loading the configuration and before the environment is constructed.
\<close>

theorem add_ik_without_arm_action:
  "load_config w a = Inr config0 \<and> add_ik a \<and> ''ARM_ACTION'' \<notin> dom (task_actions config0)
   \<longrightarrow> main n w a = Some ([ConfigLoaded], Raised ValueError)
       \<and> EnvCreated \<notin> set [ConfigLoaded]"
  by (auto simp: main_def edit_config_def Let_def domIff)

theorem add_ik_without_arm_action_witness:
  "load_config corridor_world add_ik_args = Inr base_only_config
   \<and> add_ik add_ik_args
   \<and> ''ARM_ACTION'' \<notin> dom (task_actions base_only_config)
   \<and> main 0 corridor_world add_ik_args = Some ([ConfigLoaded], Raised ValueError)"
proof -
  have h: "load_config corridor_world add_ik_args = Inr base_only_config \<and> add_ik add_ik_args
      \<and> ''ARM_ACTION'' \<notin> dom (task_actions base_only_config)"
    by (simp add: load_config_def corridor_world_def add_ik_args_def no_render_args_def
        base_only_config_def)
  then show ?thesis
    using add_ik_without_arm_action[of corridor_world add_ik_args base_only_config 0] by blast
qed

end
